theory Spec2Isabelle
  imports
    Main
    "HOL-Library.Word"
    "HOL-Library.AList"
    "HOL-Library.Multiset"
    "HOL-Library.Char_ord"
    "HOL-Library.List_Lexorder"
begin

unbundle bit_operations_syntax

section \<open>JavaScript values\<close>

text \<open>
  The engine of \<^verbatim>\<open>src/core/baseline.js\<close> works on parsed JSON. A JSON value is a
  \<open>json\<close>; a JavaScript value that may be \<^verbatim>\<open>undefined\<close> is a \<open>json option\<close>
  (\<open>None\<close> is \<^verbatim>\<open>undefined\<close>). Numbers are the integers (line numbers, columns and
  counts are safe integers in every document the engine writes, and a template literal
  prints such a number as its decimal numeral); strings are byte strings.
  A JavaScript object is the list of its own properties in insertion order, read with
  \<open>map_of\<close> and written with \<open>AList.update\<close> (an existing key keeps its place, a new key
  goes last) and \<open>AList.delete\<close>; a \<^verbatim>\<open>Map\<close> is the same. JavaScript enumerates keys that
  look like array indices first; that reordering is not modelled.
\<close>

datatype json =
    JNull
  | JBool bool
  | JNum int
  | JStr string
  | JArr "json list"
  | JObj "(string \<times> json) list"

type_synonym jsval = "json option"

datatype error = TypeError

text \<open>
  An object created by \<^verbatim>\<open>{}\<close> inherits the properties of \<^verbatim>\<open>Object.prototype\<close>, whose
  names are \<open>protoNames\<close>. On an object that has no own property of such a name, a lookup
  of the name yields the inherited value, which is truthy and has no \<^verbatim>\<open>push\<close>; and an
  assignment to \<^verbatim>\<open>__proto__\<close> sets the prototype of the object and creates no own
  property. The engine keeps the dictionaries \<^verbatim>\<open>byRule\<close>, \<^verbatim>\<open>merged\<close> and \<^verbatim>\<open>sorted\<close> in
  such objects and tests their properties before it fills them; their model follows both
  rules. Three accesses are modelled on own properties alone: the count
  \<^verbatim>\<open>ruleStats[ruleId] || 0\<close> of \<^verbatim>\<open>getStats\<close>, and the assignments
  \<^verbatim>\<open>validated[filePath] = ...\<close> and \<^verbatim>\<open>pruned[file] = ...\<close>.
\<close>

definition protoNames :: "string list" where
  "protoNames =
     [''__proto__'', ''constructor'', ''hasOwnProperty'', ''isPrototypeOf'',
      ''propertyIsEnumerable'', ''toLocaleString'', ''toString'', ''valueOf'',
      ''__defineGetter__'', ''__defineSetter__'', ''__lookupGetter__'', ''__lookupSetter__'']"

text \<open>\<^verbatim>\<open>typeof v\<close>.\<close>

fun typeof :: "jsval \<Rightarrow> string" where
  "typeof None = ''undefined''"
| "typeof (Some JNull) = ''object''"
| "typeof (Some (JBool b)) = ''boolean''"
| "typeof (Some (JNum n)) = ''number''"
| "typeof (Some (JStr s)) = ''string''"
| "typeof (Some (JArr xs)) = ''object''"
| "typeof (Some (JObj kvs)) = ''object''"

text \<open>
  \<^verbatim>\<open>v.k\<close> for the property names the engine reads (\<^verbatim>\<open>ruleId\<close>, \<^verbatim>\<open>line\<close>,
  \<^verbatim>\<open>message\<close>), none of which a string, number, boolean or array has. The engine reads a
  property of a parsed value only after it has excluded \<^verbatim>\<open>null\<close>.
\<close>

fun getProp :: "json \<Rightarrow> string \<Rightarrow> jsval" where
  "getProp (JObj kvs) k = map_of kvs k"
| "getProp v k = None"

text \<open>The decimal numeral of an integer, which is what a template literal prints for it.\<close>

fun show_nat :: "nat \<Rightarrow> string" where
  "show_nat n =
     (if n < 10 then [''0123456789'' ! n]
      else show_nat (n div 10) @ [''0123456789'' ! (n mod 10)])"

declare show_nat.simps [simp del]

definition show_int :: "int \<Rightarrow> string" where
  "show_int i = (if i < 0 then CHR ''-'' # show_nat (nat (- i)) else show_nat (nat i))"

fun join_comma :: "string list \<Rightarrow> string" where
  "join_comma [] = []"
| "join_comma [s] = s"
| "join_comma (s # t # ss) = s @ '','' @ join_comma (t # ss)"

text \<open>
  \<^verbatim>\<open>String(v)\<close>, the conversion a template literal \<^verbatim>\<open>`${v}`\<close> applies: an array joins its
  elements with commas and prints \<^verbatim>\<open>null\<close> elements as the empty string.
\<close>

fun to_str :: "json \<Rightarrow> string" where
  "to_str JNull = ''null''"
| "to_str (JBool b) = (if b then ''true'' else ''false'')"
| "to_str (JNum n) = show_int n"
| "to_str (JStr s) = s"
| "to_str (JArr xs) = join_comma (map (\<lambda>x. if x = JNull then [] else to_str x) xs)"
| "to_str (JObj kvs) = ''[object Object]''"

definition template :: "jsval \<Rightarrow> string" where
  "template v = (case v of None \<Rightarrow> ''undefined'' | Some j \<Rightarrow> to_str j)"

section \<open>The MD5 digest\<close>

text \<open>
  \<^verbatim>\<open>crypto.createHash('md5').update(s).digest('hex')\<close> of Node.js is the MD5 message digest
  of RFC 1321, printed as 32 lower-case hexadecimal digits. It is transcribed here on 32-bit
  words so that fingerprints can be computed.
\<close>

type_synonym u32 = "32 word"

definition rotl32 :: "u32 \<Rightarrow> nat \<Rightarrow> u32" where
  "rotl32 x n = push_bit n x OR drop_bit (32 - n) x"

definition md5_shift :: "nat list" where
  "md5_shift =
    [7, 12, 17, 22, 7, 12, 17, 22, 7, 12, 17, 22, 7, 12, 17, 22,
     5, 9, 14, 20, 5, 9, 14, 20, 5, 9, 14, 20, 5, 9, 14, 20,
     4, 11, 16, 23, 4, 11, 16, 23, 4, 11, 16, 23, 4, 11, 16, 23,
     6, 10, 15, 21, 6, 10, 15, 21, 6, 10, 15, 21, 6, 10, 15, 21]"

definition md5_K :: "u32 list" where
  "md5_K =
    [0xd76aa478, 0xe8c7b756, 0x242070db, 0xc1bdceee,
     0xf57c0faf, 0x4787c62a, 0xa8304613, 0xfd469501,
     0x698098d8, 0x8b44f7af, 0xffff5bb1, 0x895cd7be,
     0x6b901122, 0xfd987193, 0xa679438e, 0x49b40821,
     0xf61e2562, 0xc040b340, 0x265e5a51, 0xe9b6c7aa,
     0xd62f105d, 0x02441453, 0xd8a1e681, 0xe7d3fbc8,
     0x21e1cde6, 0xc33707d6, 0xf4d50d87, 0x455a14ed,
     0xa9e3e905, 0xfcefa3f8, 0x676f02d9, 0x8d2a4c8a,
     0xfffa3942, 0x8771f681, 0x6d9d6122, 0xfde5380c,
     0xa4beea44, 0x4bdecfa9, 0xf6bb4b60, 0xbebfbc70,
     0x289b7ec6, 0xeaa127fa, 0xd4ef3085, 0x04881d05,
     0xd9d4d039, 0xe6db99e5, 0x1fa27cf8, 0xc4ac5665,
     0xf4292244, 0x432aff97, 0xab9423a7, 0xfc93a039,
     0x655b59c3, 0x8f0ccc92, 0xffeff47d, 0x85845dd1,
     0x6fa87e4f, 0xfe2ce6e0, 0xa3014314, 0x4e0811a1,
     0xf7537e82, 0xbd3af235, 0x2ad7d2bb, 0xeb86d391]"

type_synonym md5_state = "u32 \<times> u32 \<times> u32 \<times> u32"

definition md5_step :: "u32 list \<Rightarrow> nat \<Rightarrow> md5_state \<Rightarrow> md5_state" where
  "md5_step M i = (\<lambda>(A, B, C, D).
     let (F, g) =
       (if i < 16 then ((B AND C) OR (NOT B AND D), i)
        else if i < 32 then ((D AND B) OR (NOT D AND C), (5 * i + 1) mod 16)
        else if i < 48 then (B XOR C XOR D, (3 * i + 5) mod 16)
        else (C XOR (B OR NOT D), (7 * i) mod 16));
       F' = F + A + md5_K ! i + M ! g
     in (D, B + rotl32 F' (md5_shift ! i), B, C))"

definition md5_block :: "md5_state \<Rightarrow> u32 list \<Rightarrow> md5_state" where
  "md5_block st M =
     (case (st, fold (md5_step M) [0..<64] st) of
        ((a0, b0, c0, d0), (A, B, C, D)) \<Rightarrow> (a0 + A, b0 + B, c0 + C, d0 + D))"

definition le_bytes :: "nat \<Rightarrow> int \<Rightarrow> int list" where
  "le_bytes n v = map (\<lambda>i. (v div 256 ^ i) mod 256) [0..<n]"

definition md5_pad :: "int list \<Rightarrow> int list" where
  "md5_pad bs = bs @ [128] @ replicate ((119 - length bs mod 64) mod 64) 0
     @ le_bytes 8 (8 * int (length bs))"

fun le_words :: "int list \<Rightarrow> u32 list" where
  "le_words (b0 # b1 # b2 # b3 # bs) =
     word_of_int (b0 + 256 * b1 + 65536 * b2 + 16777216 * b3) # le_words bs"
| "le_words bs = []"

fun chunks16 :: "u32 list \<Rightarrow> u32 list list" where
  "chunks16 [] = []"
| "chunks16 ws = take 16 ws # chunks16 (drop 16 ws)"

definition hex_digit :: "int \<Rightarrow> char" where
  "hex_digit n = ''0123456789abcdef'' ! nat (n mod 16)"

definition hex_byte :: "int \<Rightarrow> string" where
  "hex_byte b = [hex_digit (b div 16), hex_digit b]"

definition md5_hex :: "string \<Rightarrow> string" where
  "md5_hex s =
     (case fold (\<lambda>M st. md5_block st M) (chunks16 (le_words (md5_pad (map of_char s))))
             (0x67452301, 0xefcdab89, 0x98badcfe, 0x10325476) of
        (a, b, c, d) \<Rightarrow>
          concat (map hex_byte (concat (map (\<lambda>w. le_bytes 4 (uint w)) [a, b, c, d]))))"

section \<open>Fingerprints\<close>

text \<open>
  \<^verbatim>\<open>_generateHash(ruleId, line, message)\<close>: the first 12 hexadecimal digits of the MD5
  digest of the template literal \<^verbatim>\<open>ruleId:line:message\<close>. \<open>hashInput\<close> is that literal.
\<close>

definition hashInput :: "jsval \<Rightarrow> jsval \<Rightarrow> jsval \<Rightarrow> string" where
  "hashInput ruleId line message = template ruleId @ '':'' @ template line @ '':'' @ template message"

definition generateHash :: "jsval \<Rightarrow> jsval \<Rightarrow> jsval \<Rightarrow> string" where
  "generateHash ruleId line message = take 12 (md5_hex (hashInput ruleId line message))"

section \<open>Documents, files and the engine\<close>

text \<open>
  A finding in memory is a JavaScript object, \<open>entry\<close>; a baseline document maps a relative
  file path to an array of findings. The match index is a \<^verbatim>\<open>Map\<close> from file path to a
  \<^verbatim>\<open>Map\<close> from fingerprint to remaining count.
\<close>

type_synonym entry = "(string \<times> json) list"
type_synonym document = "(string \<times> entry list) list"
type_synonym hashes = "(string \<times> nat) list"
type_synonym matchIndex = "(string \<times> hashes) list"

text \<open>
  \<^verbatim>\<open>this._generateHash(error.ruleId, error.line, error.message)\<close>, the fingerprint of a
  stored finding. The column is not read.
\<close>

definition errorHash :: "entry \<Rightarrow> string" where
  "errorHash error =
     generateHash (map_of error ''ruleId'') (map_of error ''line'') (map_of error ''message'')"

text \<open>
  The text of a file is the JSON value it denotes, or \<open>Malformed\<close> when reading or
  \<^verbatim>\<open>JSON.parse\<close> throws; \<^verbatim>\<open>JSON.stringify\<close> followed by \<^verbatim>\<open>JSON.parse\<close> is the identity
  on \<open>json\<close>. The file system is the two places the engine touches: the file at
  \<^verbatim>\<open>getBaselinePath()\<close> and the directory at \<^verbatim>\<open>getSplitBaselineDir()\<close>, a list of named
  files in the order \<^verbatim>\<open>readdirSync\<close> lists them; \<open>None\<close> is a path that does not exist.
  Writing, unlinking and creating the directory always succeed.
\<close>

datatype content = Malformed | Json json

record filesystem =
  fs_file :: "content option"
  fs_dir :: "(string \<times> content) list option"

record baseline =
  cwd :: string
  baselineFile :: string
  splitByRule :: bool
  data :: "document option"
  index :: "matchIndex option"
  loaded :: bool

definition constructor :: "string \<Rightarrow> string \<Rightarrow> bool \<Rightarrow> baseline" where
  "constructor c f s =
     \<lparr>cwd = c, baselineFile = f, splitByRule = s, data = None, index = None, loaded = False\<rparr>"

subsection \<open>Loading\<close>

text \<open>The callback of \<^verbatim>\<open>errors.filter\<close> in \<^verbatim>\<open>_validateBaselineData\<close>.\<close>

definition validError :: "json \<Rightarrow> bool" where
  "validError error =
     (if typeof (Some error) \<noteq> ''object'' \<or> error = JNull then False
      else if typeof (getProp error ''ruleId'') \<noteq> ''string''
              \<or> typeof (getProp error ''line'') \<noteq> ''number'' then False
      else True)"

fun asEntry :: "json \<Rightarrow> entry" where
  "asEntry (JObj kvs) = kvs"
| "asEntry v = []"

definition validateFile :: "string \<times> json \<Rightarrow> document \<Rightarrow> document" where
  "validateFile = (\<lambda>(filePath, errors) validated.
     case errors of
       JArr es \<Rightarrow>
         (let validErrors = filter validError es
          in if length validErrors > 0
             then AList.update filePath (map asEntry validErrors) validated
             else validated)
     | _ \<Rightarrow> validated)"

definition validateBaselineData :: "json \<Rightarrow> document" where
  "validateBaselineData d = (case d of JObj files \<Rightarrow> fold validateFile files [] | _ \<Rightarrow> [])"

definition loadSingleBaseline :: "filesystem \<Rightarrow> document" where
  "loadSingleBaseline fs =
     (case fs_file fs of
        None \<Rightarrow> []
      | Some Malformed \<Rightarrow> []
      | Some (Json d) \<Rightarrow> validateBaselineData d)"

definition endsWith :: "string \<Rightarrow> string \<Rightarrow> bool" where
  "endsWith s suffix =
     (length suffix \<le> length s \<and> drop (length s - length suffix) s = suffix)"

text \<open>
  The merge loop of \<^verbatim>\<open>_loadSplitBaseline\<close> for one validated rule document. It runs
  over the own properties of \<^verbatim>\<open>validated\<close>, which \<^verbatim>\<open>__proto__\<close> never is. For a source
  file named like an inherited property, \<^verbatim>\<open>merged[sourceFile]\<close> is the inherited value and
  its \<^verbatim>\<open>push\<close> throws: the result is then the error together with \<^verbatim>\<open>merged\<close> as it is
  at the throw.
\<close>

fun mergeValidated :: "document \<Rightarrow> document \<Rightarrow> error option \<times> document" where
  "mergeValidated [] merged = (None, merged)"
| "mergeValidated ((sourceFile, errors) # validated) merged =
     (if sourceFile = ''__proto__'' then mergeValidated validated merged
      else if sourceFile \<in> set protoNames then (Some TypeError, merged)
      else mergeValidated validated
             (AList.update sourceFile
                ((case map_of merged sourceFile of None \<Rightarrow> [] | Some es \<Rightarrow> es) @ errors) merged))"

text \<open>
  The loop over the rule files. A file that does not parse is skipped; a throw of the
  merge is caught by the outer handler, which returns \<^verbatim>\<open>merged\<close> as it is.
\<close>

fun mergeRuleFiles :: "(string \<times> content) list \<Rightarrow> document \<Rightarrow> document" where
  "mergeRuleFiles [] merged = merged"
| "mergeRuleFiles ((file, c) # files) merged =
     (case c of
        Malformed \<Rightarrow> mergeRuleFiles files merged
      | Json j \<Rightarrow>
          (case mergeValidated (validateBaselineData j) merged of
             (Some err, merged') \<Rightarrow> merged'
           | (None, merged') \<Rightarrow> mergeRuleFiles files merged'))"

definition loadSplitBaseline :: "filesystem \<Rightarrow> document" where
  "loadSplitBaseline fs =
     (case fs_dir fs of
        None \<Rightarrow> []
      | Some dir \<Rightarrow>
          mergeRuleFiles
            (filter (\<lambda>(f, c). endsWith f ''.json'' \<and> f \<noteq> ''_loader.json'') dir) [])"

definition countHash :: "entry \<Rightarrow> hashes \<Rightarrow> hashes" where
  "countHash error hs =
     (let hash = errorHash error
      in AList.update hash ((case map_of hs hash of None \<Rightarrow> 0 | Some c \<Rightarrow> c) + 1) hs)"

definition buildIndex :: "document \<Rightarrow> matchIndex" where
  "buildIndex d = fold (\<lambda>(file, errors) idx. AList.update file (fold countHash errors []) idx) d []"

text \<open>\<^verbatim>\<open>load()\<close> returns \<^verbatim>\<open>this.data\<close> and the engine as it leaves it.\<close>

definition load :: "filesystem \<Rightarrow> baseline \<Rightarrow> document option \<times> baseline" where
  "load fs b =
     (if loaded b then (data b, b)
      else
        (let d = (if splitByRule b then loadSplitBaseline fs else loadSingleBaseline fs)
         in (Some d, b\<lparr>data := Some d, index := Some (buildIndex d), loaded := True\<rparr>)))"

definition reset :: "baseline \<Rightarrow> baseline" where
  "reset b = b\<lparr>data := None, index := None, loaded := False\<rparr>"

subsection \<open>Consuming lookup\<close>

text \<open>
  \<^verbatim>\<open>path.relative\<close> depends on the platform and is a parameter. A call on an engine whose
  index is \<^verbatim>\<open>null\<close> dereferences it and throws.
\<close>

definition isInBaseline ::
  "(string \<Rightarrow> string \<Rightarrow> string) \<Rightarrow> filesystem \<Rightarrow> baseline \<Rightarrow> string \<Rightarrow> jsval \<Rightarrow> jsval \<Rightarrow> jsval
     \<Rightarrow> error + (bool \<times> baseline)" where
  "isInBaseline relative fs b0 filePath ruleId line message =
     (let b = (if \<not> loaded b0 then snd (load fs b0) else b0);
          relativePath = relative (cwd b) filePath
      in case index b of
           None \<Rightarrow> Inl TypeError
         | Some idx \<Rightarrow>
             (case map_of idx relativePath of
                None \<Rightarrow> Inr (False, b)
              | Some fileHashes \<Rightarrow>
                  (let hash = generateHash ruleId line message
                   in case map_of fileHashes hash of
                        None \<Rightarrow> Inr (False, b)
                      | Some c \<Rightarrow>
                          if c > 0 then
                            Inr (True, b\<lparr>index := Some (AList.update relativePath
                                   (if c = 1 then AList.delete hash fileHashes
                                    else AList.update hash (c - 1) fileHashes) idx)\<rparr>)
                          else Inr (False, b))))"

subsection \<open>Saving\<close>

text \<open>
  The comparator of \<^verbatim>\<open>_sortBaseline\<close>. \<^verbatim>\<open>a.line !== b.line\<close> compares primitive values
  by value and holds of any two distinct arrays or objects. \<^verbatim>\<open>a.line - b.line\<close> converts
  both to numbers; \<open>toNumber\<close> is that conversion, \<open>None\<close> being \<^verbatim>\<open>NaN\<close>, exact for
  \<^verbatim>\<open>undefined\<close>, \<^verbatim>\<open>null\<close>, booleans, numbers and objects, while a string or an array is
  read as \<^verbatim>\<open>NaN\<close> also when it spells a number. A difference that is \<^verbatim>\<open>NaN\<close> counts as 0
  in the sort. \<^verbatim>\<open>a.ruleId.localeCompare(b.ruleId)\<close> throws unless \<^verbatim>\<open>a.ruleId\<close> is a string,
  and converts \<^verbatim>\<open>b.ruleId\<close> to a string; the comparison of two strings depends on the
  locale and is a parameter.
\<close>

fun isObject :: "jsval \<Rightarrow> bool" where
  "isObject (Some (JArr xs)) = True"
| "isObject (Some (JObj kvs)) = True"
| "isObject v = False"

definition strictNotEqual :: "jsval \<Rightarrow> jsval \<Rightarrow> bool" where
  "strictNotEqual x y = (isObject x \<or> isObject y \<or> x \<noteq> y)"

fun toNumber :: "jsval \<Rightarrow> int option" where
  "toNumber (Some (JNum n)) = Some n"
| "toNumber (Some JNull) = Some 0"
| "toNumber (Some (JBool b)) = Some (if b then 1 else 0)"
| "toNumber v = None"

definition compareErrors :: "(string \<Rightarrow> string \<Rightarrow> int) \<Rightarrow> entry \<Rightarrow> entry \<Rightarrow> error + int" where
  "compareErrors localeCompare a b =
     (if strictNotEqual (map_of a ''line'') (map_of b ''line'') then
        (case (toNumber (map_of a ''line''), toNumber (map_of b ''line'')) of
           (Some m, Some n) \<Rightarrow> Inr (m - n)
         | _ \<Rightarrow> Inr 0)
      else
        (case map_of a ''ruleId'' of
           Some (JStr s) \<Rightarrow> Inr (localeCompare s (template (map_of b ''ruleId'')))
         | _ \<Rightarrow> Inl TypeError))"

text \<open>
  \<^verbatim>\<open>Array.prototype.sort\<close> with a comparator is stable, and a throw of the comparator is
  the throw of the sort. Which pairs are compared is left to the JavaScript engine;
  \<open>sort_by\<close> inserts each element among those before it, scanning them from the greatest
  and passing the inserted element as the first argument: the sort throws when the
  inserted finding meets a finding of the same line and its own \<^verbatim>\<open>ruleId\<close> is not a
  string. \<open>insert_by\<close> works on the sorted prefix in reverse.
\<close>

fun insert_by :: "('a \<Rightarrow> 'a \<Rightarrow> error + int) \<Rightarrow> 'a \<Rightarrow> 'a list \<Rightarrow> error + 'a list" where
  "insert_by c x [] = Inr [x]"
| "insert_by c x (y # ys) =
     (case c x y of
        Inl err \<Rightarrow> Inl err
      | Inr v \<Rightarrow>
          if v < 0
          then (case insert_by c x ys of Inl err \<Rightarrow> Inl err | Inr zs \<Rightarrow> Inr (y # zs))
          else Inr (x # y # ys))"

fun sort_from :: "('a \<Rightarrow> 'a \<Rightarrow> error + int) \<Rightarrow> 'a list \<Rightarrow> 'a list \<Rightarrow> error + 'a list" where
  "sort_from c [] acc = Inr (rev acc)"
| "sort_from c (x # xs) acc =
     (case insert_by c x acc of
        Inl err \<Rightarrow> Inl err
      | Inr acc' \<Rightarrow> sort_from c xs acc')"

definition sort_by :: "('a \<Rightarrow> 'a \<Rightarrow> error + int) \<Rightarrow> 'a list \<Rightarrow> error + 'a list" where
  "sort_by c xs = sort_from c xs []"

text \<open>
  \<^verbatim>\<open>_sortBaseline\<close>: the file keys in the default order of \<^verbatim>\<open>sort()\<close>, by code unit, and
  for each key the sorted findings, assigned to \<^verbatim>\<open>sorted[key]\<close>. The arrays are sorted in
  place; the model returns the new object only.
\<close>

fun sortKeys ::
  "(string \<Rightarrow> string \<Rightarrow> int) \<Rightarrow> document \<Rightarrow> string list \<Rightarrow> document \<Rightarrow> error + document" where
  "sortKeys localeCompare d [] sortedData = Inr sortedData"
| "sortKeys localeCompare d (key # sortedKeys) sortedData =
     (case sort_by (compareErrors localeCompare)
             (case map_of d key of None \<Rightarrow> [] | Some es \<Rightarrow> es) of
        Inl err \<Rightarrow> Inl err
      | Inr es \<Rightarrow>
          sortKeys localeCompare d sortedKeys
            (if key = ''__proto__'' then sortedData else AList.update key es sortedData))"

definition sortBaseline :: "(string \<Rightarrow> string \<Rightarrow> int) \<Rightarrow> document \<Rightarrow> error + document" where
  "sortBaseline localeCompare d = sortKeys localeCompare d (sort (map fst d)) []"

text \<open>\<^verbatim>\<open>JSON.stringify\<close> of a document, as the value the written text denotes.\<close>

definition stringify :: "document \<Rightarrow> content" where
  "stringify d = Json (JObj (map (\<lambda>(file, errors). (file, JArr (map JObj errors))) d))"

text \<open>\<^verbatim>\<open>_saveSingleBaseline\<close>: the error thrown, if any, and the disk.\<close>

definition saveSingleBaseline ::
  "(string \<Rightarrow> string \<Rightarrow> int) \<Rightarrow> filesystem \<Rightarrow> document \<Rightarrow> error option \<times> filesystem" where
  "saveSingleBaseline localeCompare fs d =
     (case sortBaseline localeCompare d of
        Inl err \<Rightarrow> (Some err, fs)
      | Inr sortedData \<Rightarrow> (None, fs\<lparr>fs_file := Some (stringify sortedData)\<rparr>))"

type_synonym byRule = "(string \<times> document) list"

text \<open>
  The body of the grouping loop of \<^verbatim>\<open>_saveSplitBaseline\<close>. The file name of a rule
  is \<^verbatim>\<open>error.ruleId.replace(/\//g, '-')\<close>, which throws unless the rule identifier is a
  string. \<^verbatim>\<open>byRule\<close> and its rule documents are created by \<^verbatim>\<open>{}\<close>. For a file path
  named like an inherited property, \<^verbatim>\<open>byRule[ruleId][filePath]\<close> is the inherited value,
  no array is created, and \<^verbatim>\<open>push\<close> throws. For a rule named like an inherited property,
  \<^verbatim>\<open>byRule[ruleId]\<close> is the inherited built-in object: \<^verbatim>\<open>byRule\<close> gets no property of
  that name and the array is stored on the built-in object, so that the finding reaches no
  rule document. There the model is exact unless the file path names a further property of
  that built-in object (such as \<^verbatim>\<open>length\<close>); and for the rule name \<^verbatim>\<open>__proto__\<close> the
  built-in object is \<^verbatim>\<open>Object.prototype\<close> itself, whose new property every object of
  the process inherits from then on, which the model does not follow.
\<close>

definition safeFileName :: "string \<Rightarrow> string" where
  "safeFileName r = map (\<lambda>c. if c = CHR ''/'' then CHR ''-'' else c) r"

definition addByRule :: "string \<Rightarrow> entry \<Rightarrow> byRule \<Rightarrow> error + byRule" where
  "addByRule filePath error byRule =
     (case map_of error ''ruleId'' of
        Some (JStr r) \<Rightarrow>
          (let ruleId = safeFileName r
           in if filePath \<in> set protoNames then Inl TypeError
              else if ruleId \<in> set protoNames then Inr byRule
              else
                (let ruleData = (case map_of byRule ruleId of None \<Rightarrow> [] | Some rd \<Rightarrow> rd);
                     errors = (case map_of ruleData filePath of None \<Rightarrow> [] | Some es \<Rightarrow> es)
                 in Inr (AList.update ruleId
                           (AList.update filePath (errors @ [error]) ruleData) byRule)))
      | _ \<Rightarrow> Inl TypeError)"

fun groupErrors :: "string \<Rightarrow> entry list \<Rightarrow> byRule \<Rightarrow> error + byRule" where
  "groupErrors filePath [] byRule = Inr byRule"
| "groupErrors filePath (error # errors) byRule =
     (case addByRule filePath error byRule of
        Inl err \<Rightarrow> Inl err
      | Inr byRule' \<Rightarrow> groupErrors filePath errors byRule')"

fun groupByRule :: "document \<Rightarrow> byRule \<Rightarrow> error + byRule" where
  "groupByRule [] byRule = Inr byRule"
| "groupByRule ((filePath, errors) # rest) byRule =
     (case groupErrors filePath errors byRule of
        Inl err \<Rightarrow> Inl err
      | Inr byRule' \<Rightarrow> groupByRule rest byRule')"

text \<open>
  The writing loop: one file per rule, in the order of \<^verbatim>\<open>byRule\<close>. A throw of the sort
  leaves the files written so far.
\<close>

fun writeRuleFiles ::
  "(string \<Rightarrow> string \<Rightarrow> int) \<Rightarrow> byRule \<Rightarrow> (string \<times> content) list
     \<Rightarrow> error option \<times> (string \<times> content) list" where
  "writeRuleFiles localeCompare [] dir = (None, dir)"
| "writeRuleFiles localeCompare ((ruleId, ruleData) # rest) dir =
     (case sortBaseline localeCompare ruleData of
        Inl err \<Rightarrow> (Some err, dir)
      | Inr sortedData \<Rightarrow>
          writeRuleFiles localeCompare rest
            (AList.update (ruleId @ ''.json'') (stringify sortedData) dir))"

definition loaderFile :: "string list \<Rightarrow> content" where
  "loaderFile ruleFiles =
     Json (JObj [(''description'', JStr ''ESLint baseline split by rule identifier''),
                 (''files'', JArr (map JStr (sort ruleFiles)))])"

text \<open>
  \<^verbatim>\<open>_saveSplitBaseline\<close>: create the directory, group, unlink every \<^verbatim>\<open>.json\<close> file, write
  one file per rule, write \<^verbatim>\<open>_loader.json\<close>. A throw in the grouping loop leaves the
  directory created; a throw in the writing loop leaves it without the files unlinked and
  without the manifest.
\<close>

definition saveSplitBaseline ::
  "(string \<Rightarrow> string \<Rightarrow> int) \<Rightarrow> filesystem \<Rightarrow> document \<Rightarrow> error option \<times> filesystem" where
  "saveSplitBaseline localeCompare fs d =
     (let dir0 = (case fs_dir fs of None \<Rightarrow> [] | Some dir \<Rightarrow> dir)
      in case groupByRule d [] of
           Inl err \<Rightarrow> (Some err, fs\<lparr>fs_dir := Some dir0\<rparr>)
         | Inr byRule \<Rightarrow>
             (let dir1 = filter (\<lambda>(f, c). \<not> endsWith f ''.json'') dir0
              in case writeRuleFiles localeCompare byRule dir1 of
                   (Some err, dir2) \<Rightarrow> (Some err, fs\<lparr>fs_dir := Some dir2\<rparr>)
                 | (None, dir2) \<Rightarrow>
                     (let ruleFiles = map (\<lambda>(ruleId, ruleData). ruleId @ ''.json'') byRule;
                          dir3 = AList.update ''_loader.json'' (loaderFile ruleFiles) dir2
                      in (None, fs\<lparr>fs_dir := Some dir3\<rparr>))))"

text \<open>\<^verbatim>\<open>save(data, {allowEmpty})\<close>: the returned boolean, or the error thrown, and the disk.\<close>

definition save ::
  "(string \<Rightarrow> string \<Rightarrow> int) \<Rightarrow> baseline \<Rightarrow> filesystem \<Rightarrow> document \<Rightarrow> bool
     \<Rightarrow> (error + bool) \<times> filesystem" where
  "save localeCompare b fs d allowEmpty =
     (let isEmpty = (length (map fst d) = 0)
      in if isEmpty \<and> \<not> allowEmpty then (Inr False, fs)
         else
           (case (if splitByRule b then saveSplitBaseline localeCompare fs d
                  else saveSingleBaseline localeCompare fs d) of
              (Some err, fs') \<Rightarrow> (Inl err, fs')
            | (None, fs') \<Rightarrow> (Inr True, fs')))"

subsection \<open>Statistics, unmatched entries and pruning\<close>

record stats =
  totalErrors :: nat
  fileCount :: nat
  ruleStats :: "(string \<times> nat) list"

definition countError :: "entry \<Rightarrow> nat \<times> (string \<times> nat) list \<Rightarrow> nat \<times> (string \<times> nat) list" where
  "countError error = (\<lambda>(tot, rs).
     (let k = template (map_of error ''ruleId'')
      in (tot + 1, AList.update k ((case map_of rs k of None \<Rightarrow> 0 | Some c \<Rightarrow> c) + 1) rs)))"

definition getStats :: "filesystem \<Rightarrow> baseline \<Rightarrow> error + (stats \<times> baseline)" where
  "getStats fs b0 =
     (let b = (if \<not> loaded b0 then snd (load fs b0) else b0)
      in case data b of
           None \<Rightarrow> Inl TypeError
         | Some d \<Rightarrow>
             (case fold (\<lambda>(file, errors) acc. fold countError errors acc) d (0, []) of
                (tot, rs) \<Rightarrow>
                  Inr (\<lparr>totalErrors = tot, fileCount = length (map fst d), ruleStats = rs\<rparr>, b)))"

text \<open>
  \<^verbatim>\<open>getUnmatched()\<close> does not load. The object it pushes is
  \<^verbatim>\<open>{file, ...error, unmatchedCount: count}\<close>.
\<close>

definition unmatchedEntry :: "string \<Rightarrow> entry \<Rightarrow> nat \<Rightarrow> entry" where
  "unmatchedEntry file error c =
     AList.update ''unmatchedCount'' (JNum (int c))
       (fold (\<lambda>(k, v). AList.update k v) error [(''file'', JStr file)])"

definition unmatchedOf :: "document \<Rightarrow> string \<Rightarrow> string \<times> nat \<Rightarrow> entry list" where
  "unmatchedOf d file = (\<lambda>(hash, c).
     if c > 0 then
       (case find (\<lambda>error. errorHash error = hash)
               (case map_of d file of None \<Rightarrow> [] | Some es \<Rightarrow> es) of
          None \<Rightarrow> []
        | Some error \<Rightarrow> [unmatchedEntry file error c])
     else [])"

definition getUnmatched :: "baseline \<Rightarrow> error + entry list" where
  "getUnmatched b =
     (case index b of
        None \<Rightarrow> Inl TypeError
      | Some idx \<Rightarrow>
          (case data b of
             None \<Rightarrow>
               if list_ex (\<lambda>(file, hs). list_ex (\<lambda>(hash, c). c > 0) hs) idx
               then Inl TypeError else Inr []
           | Some d \<Rightarrow>
               Inr (concat (map (\<lambda>(file, hs). concat (map (unmatchedOf d file) hs)) idx))))"

record pruneResult =
  pruned :: document
  removedCount :: nat
  keptCount :: nat

definition currentIndex :: "document \<Rightarrow> (string \<times> string list) list" where
  "currentIndex currentErrors =
     fold (\<lambda>(file, errors) ci.
             AList.update file (fold (\<lambda>error hs. List.insert (errorHash error) hs) errors []) ci)
          currentErrors []"

definition pruneError :: "string list \<Rightarrow> entry \<Rightarrow> entry list \<times> nat \<times> nat \<Rightarrow> entry list \<times> nat \<times> nat" where
  "pruneError currentHashes error = (\<lambda>(keptErrors, kept, removed).
     if errorHash error \<in> set currentHashes then (keptErrors @ [error], kept + 1, removed)
     else (keptErrors, kept, removed + 1))"

definition pruneFile ::
  "(string \<times> string list) list \<Rightarrow> string \<times> entry list \<Rightarrow> pruneResult \<Rightarrow> pruneResult" where
  "pruneFile ci = (\<lambda>(file, errors) r.
     case map_of ci file of
       None \<Rightarrow> r\<lparr>removedCount := removedCount r + length errors\<rparr>
     | Some currentHashes \<Rightarrow>
         (case fold (pruneError currentHashes) errors ([], keptCount r, removedCount r) of
            (keptErrors, kept, removed) \<Rightarrow>
              \<lparr>pruned = (if length keptErrors > 0 then AList.update file keptErrors (pruned r)
                         else pruned r),
               removedCount = removed, keptCount = kept\<rparr>))"

definition prune :: "filesystem \<Rightarrow> baseline \<Rightarrow> document \<Rightarrow> error + (pruneResult \<times> baseline)" where
  "prune fs b0 currentErrors =
     (let b = (if \<not> loaded b0 then snd (load fs b0) else b0)
      in case data b of
           None \<Rightarrow> Inl TypeError
         | Some d \<Rightarrow>
             Inr (fold (pruneFile (currentIndex currentErrors)) d
                    \<lparr>pruned = [], removedCount = 0, keptCount = 0\<rparr>, b))"

section \<open>Notions used to state the properties\<close>

text \<open>
  \<open>entriesOf d file\<close> is \<^verbatim>\<open>d[file] || []\<close>. \<open>validEntry\<close> is the load-time check on a
  finding in memory. A document is \<open>wellFormed\<close> when its keys are distinct (it is a
  JavaScript object), every file has at least one finding and every finding passes the
  check. Two documents have the \<open>sameFindings\<close> when they have the same files and each
  file has the same findings up to order. \<open>ruleIdOf\<close> is the rule identifier of a valid
  finding. A document has \<open>plainKeys\<close> when no file path is named like an inherited
  property, and \<open>plainRules\<close> when no rule's file name is, nor is \<^verbatim>\<open>_loader\<close>.
\<close>

definition entriesOf :: "document \<Rightarrow> string \<Rightarrow> entry list" where
  "entriesOf d file = (case map_of d file of None \<Rightarrow> [] | Some es \<Rightarrow> es)"

definition validEntry :: "entry \<Rightarrow> bool" where
  "validEntry e = validError (JObj e)"

definition wellFormed :: "document \<Rightarrow> bool" where
  "wellFormed d = (distinct (map fst d) \<and> list_all (\<lambda>(file, es). es \<noteq> [] \<and> list_all validEntry es) d)"

definition sameFindings :: "document \<Rightarrow> document \<Rightarrow> bool" where
  "sameFindings A B = (\<forall>file. map_option mset (map_of A file) = map_option mset (map_of B file))"

definition ruleIdOf :: "entry \<Rightarrow> string" where
  "ruleIdOf e = (case map_of e ''ruleId'' of Some (JStr s) \<Rightarrow> s | _ \<Rightarrow> [])"

definition plainKeys :: "document \<Rightarrow> bool" where
  "plainKeys d = list_all (\<lambda>(f, es). f \<notin> set protoNames) d"

definition plainRules :: "document \<Rightarrow> bool" where
  "plainRules d =
     list_all (\<lambda>(f, es). list_all (\<lambda>e. safeFileName (ruleIdOf e) \<notin> set (''_loader'' # protoNames)) es) d"

text \<open>
  The remaining count of a fingerprint in the index entry of a file (0 when either is
  absent), a sequence of \<^verbatim>\<open>isInBaseline\<close> calls on one engine, and the entries of a
  baseline file that \<^verbatim>\<open>prune\<close> keeps: those whose fingerprint occurs among the current
  findings of the same file.
\<close>

definition remaining :: "matchIndex \<Rightarrow> string \<Rightarrow> string \<Rightarrow> nat" where
  "remaining idx file hash =
     (case map_of idx file of
        None \<Rightarrow> 0
      | Some hs \<Rightarrow> (case map_of hs hash of None \<Rightarrow> 0 | Some c \<Rightarrow> c))"

fun lookups ::
  "(string \<Rightarrow> string \<Rightarrow> string) \<Rightarrow> filesystem \<Rightarrow> baseline
     \<Rightarrow> (string \<times> jsval \<times> jsval \<times> jsval) list \<Rightarrow> error + (bool list \<times> baseline)" where
  "lookups relative fs b [] = Inr ([], b)"
| "lookups relative fs b ((filePath, ruleId, line, message) # qs) =
     (case isInBaseline relative fs b filePath ruleId line message of
        Inl err \<Rightarrow> Inl err
      | Inr (r, b') \<Rightarrow>
          (case lookups relative fs b' qs of
             Inl err \<Rightarrow> Inl err
           | Inr (rs, b'') \<Rightarrow> Inr (r # rs, b'')))"

definition keptOf :: "document \<Rightarrow> string \<Rightarrow> entry list \<Rightarrow> entry list" where
  "keptOf current file es =
     (case map_of current file of
        None \<Rightarrow> []
      | Some cs \<Rightarrow> filter (\<lambda>e. errorHash e \<in> errorHash ` set cs) es)"

subsection \<open>Auxiliary notions of the proofs\<close>

text \<open>
  For the split round trip: the findings of a file summed over all rule documents, and the
  invariant of the grouping loop. For the injectivity of decimal numerals: reading a
  numeral back.
\<close>

definition total :: "byRule \<Rightarrow> string \<Rightarrow> entry multiset" where
  "total br f = sum_list (map (\<lambda>(k, rd). mset (entriesOf rd f)) br)"

definition byRuleOK :: "byRule \<Rightarrow> bool" where
  "byRuleOK br =
     (distinct (map fst br)
      \<and> (\<forall>(k, rd) \<in> set br. wellFormed rd \<and> plainKeys rd \<and> k \<notin> set (''_loader'' # protoNames)))"

definition noEmpty :: "document \<Rightarrow> bool" where
  "noEmpty d = list_all (\<lambda>(f, es). es \<noteq> []) d"



subsection \<open>Example data\<close>

text \<open>
  The data of the repository's tests, for evaluating the engine. \<open>exRelative\<close> is
  \<^verbatim>\<open>path.relative\<close> on a path below the root; \<open>exCompare\<close> compares code units.
  \<open>exProtoFile\<close> and \<open>exProtoRule\<close> are documents with one finding, of a file named
  \<^verbatim>\<open>constructor\<close> and of a rule named \<^verbatim>\<open>constructor\<close>; \<open>exSplitDisk\<close> and
  \<open>exSplitDisk2\<close> are split baseline directories, of two rules and of one.
\<close>

definition exRelative :: "string \<Rightarrow> string \<Rightarrow> string" where
  "exRelative from to = drop (Suc (length from)) to"

definition exCompare :: "string \<Rightarrow> string \<Rightarrow> int" where
  "exCompare a b = (if a < b then - 1 else if a = b then 0 else 1)"

definition exEngine :: "bool \<Rightarrow> baseline" where
  "exEngine split = constructor ''/repo'' ''.eslintbaseline.json'' split"

definition exDisk :: "document \<Rightarrow> filesystem" where
  "exDisk d = \<lparr>fs_file = Some (stringify d), fs_dir = None\<rparr>"

definition exTwice :: document where
  "exTwice = [(''f'', [[(''ruleId'', JStr ''r''), (''line'', JNum 5), (''message'', JStr ''m'')],
                       [(''ruleId'', JStr ''r''), (''line'', JNum 5), (''message'', JStr ''m'')]])]"

definition exQuery :: "string \<times> jsval \<times> jsval \<times> jsval" where
  "exQuery = (''/repo/f'', Some (JStr ''r''), Some (JNum 5), Some (JStr ''m''))"

definition exA :: entry where
  "exA = [(''ruleId'', JStr ''no-unused-vars''), (''line'', JNum 10), (''column'', JNum 5),
          (''message'', JStr ''Error 1'')]"

definition exB :: entry where
  "exB = [(''ruleId'', JStr ''no-console''), (''line'', JNum 20), (''column'', JNum 1),
          (''message'', JStr ''Error 2'')]"

definition exC :: entry where
  "exC = [(''ruleId'', JStr ''no-debugger''), (''line'', JNum 30), (''column'', JNum 1),
          (''message'', JStr ''Error 3'')]"

definition exN :: entry where
  "exN = [(''ruleId'', JStr ''@typescript-eslint/no-unused-vars''), (''line'', JNum 5),
          (''column'', JNum 1), (''message'', JStr ''Variable x is not used'')]"

definition exThree :: document where
  "exThree = [(''src/file.ts'', [exA, exB, exC])]"

definition exTwoFiles :: document where
  "exTwoFiles = [(''src/file.ts'', [exB, exA]), (''src/other.ts'', [exN])]"

definition exProtoFile :: document where
  "exProtoFile = [(''constructor'', [exB])]"

definition exProtoRule :: document where
  "exProtoRule =
     [(''src/file.ts'', [[(''ruleId'', JStr ''constructor''), (''line'', JNum 1), (''message'', JStr ''m'')]])]"

definition exSplitDisk :: filesystem where
  "exSplitDisk =
     \<lparr>fs_file = None,
      fs_dir = Some [(''no-console.json'', stringify [(''src/file.ts'', [exB])]),
                     (''no-unused-vars.json'', stringify [(''src/file.ts'', [exA])]),
                     (''_loader.json'', loaderFile [''no-console.json'', ''no-unused-vars.json''])]\<rparr>"

definition exSplitDisk2 :: filesystem where
  "exSplitDisk2 =
     \<lparr>fs_file = None,
      fs_dir = Some [(''no-debugger.json'', stringify [(''src/file.ts'', [exC])]),
                     (''_loader.json'', loaderFile [''no-debugger.json''])]\<rparr>"

section \<open>Properties\<close>

subsection \<open>Association lists\<close>

lemma update_fresh: "k \<notin> fst ` set al \<Longrightarrow> AList.update k v al = al @ [(k, v)]"
  by (induction al) auto

lemma fold_update_fresh:
  "distinct ks \<Longrightarrow> set ks \<inter> fst ` set acc = {} \<Longrightarrow>
   fold (\<lambda>k s. AList.update k (g k) s) ks acc = acc @ map (\<lambda>k. (k, g k)) ks"
proof (induction ks arbitrary: acc)
  case Nil
  then show ?case by simp
next
  case (Cons k ks)
  from Cons.prems have fresh: "k \<notin> fst ` set acc" by auto
  have "fold (\<lambda>k s. AList.update k (g k) s) ks (acc @ [(k, g k)])
        = (acc @ [(k, g k)]) @ map (\<lambda>k. (k, g k)) ks"
    using Cons.prems by (intro Cons.IH) auto
  with fresh show ?case by (simp add: update_fresh)
qed

lemma set_update_cases:
  "p \<in> set (AList.update k v al) \<Longrightarrow> p = (k, v) \<or> p \<in> set al"
  by (induction al) (auto split: if_splits)

subsection \<open>The MD5 transcription and fingerprints\<close>

text \<open>
  The transcription computes two test vectors of RFC 1321, of one and of two blocks, and
  a digest has 32 hexadecimal digits.
\<close>

lemma md5_rfc1321_abc: "md5_hex ''abc'' = ''900150983cd24fb0d6963f7d28e17f72''"
  by code_simp

lemma md5_rfc1321_two_blocks:
  "md5_hex ''ABCDEFGHIJKLMNOPQRSTUVWXYZabcdefghijklmnopqrstuvwxyz0123456789''
     = ''d174ab98d277d9f5a5611c2c9f419d9f''"
  by code_simp




lemma hashInput_lit:
  "hashInput (Some (JStr r)) (Some (JNum l)) (Some (JStr m)) = r @ '':'' @ show_int l @ '':'' @ m"
  by (simp add: hashInput_def template_def)

lemma show_int_5: "show_int 5 = ''5''"
  by (simp add: show_int_def show_nat.simps)

lemma show_int_1: "show_int 1 = ''1''"
  by (simp add: show_int_def show_nat.simps)












text \<open>
  C10. The findings \<^verbatim>\<open>("a", 5, "1:m")\<close> and \<^verbatim>\<open>("a:5", 1, "m")\<close> are digested as the same
  string \<^verbatim>\<open>a:5:1:m\<close> and have the same fingerprint. With only the first in the baseline
  of a file, a lookup of the second in that file returns true and consumes the entry.
\<close>

theorem separator_collision_conflates:
  "(''a'', 5 :: int, ''1:m'') \<noteq> (''a:5'', 1, ''m'')
   \<and> hashInput (Some (JStr ''a'')) (Some (JNum 5)) (Some (JStr ''1:m''))
     = hashInput (Some (JStr ''a:5'')) (Some (JNum 1)) (Some (JStr ''m''))
   \<and> generateHash (Some (JStr ''a'')) (Some (JNum 5)) (Some (JStr ''1:m''))
     = generateHash (Some (JStr ''a:5'')) (Some (JNum 1)) (Some (JStr ''m''))
   \<and> (\<exists>b'. isInBaseline relative fs
          (snd (load \<lparr>fs_file = Some (Json (JObj [(relative c p,
                  JArr [JObj [(''ruleId'', JStr ''a''), (''line'', JNum 5),
                              (''message'', JStr ''1:m'')]])])), fs_dir = None\<rparr>
             (constructor c f False)))
          p (Some (JStr ''a:5'')) (Some (JNum 1)) (Some (JStr ''m'')) = Inr (True, b')
        \<and> index b' = Some [(relative c p, [])])"
proof -
  have pre: "hashInput (Some (JStr ''a'')) (Some (JNum 5)) (Some (JStr ''1:m''))
     = hashInput (Some (JStr ''a:5'')) (Some (JNum 1)) (Some (JStr ''m''))"
    by (simp add: hashInput_lit show_int_5 show_int_1)
  then have fp: "generateHash (Some (JStr ''a'')) (Some (JNum 5)) (Some (JStr ''1:m''))
     = generateHash (Some (JStr ''a:5'')) (Some (JNum 1)) (Some (JStr ''m''))"
    by (simp add: generateHash_def)
  have "\<exists>b'. isInBaseline relative fs
          (snd (load \<lparr>fs_file = Some (Json (JObj [(relative c p,
                  JArr [JObj [(''ruleId'', JStr ''a''), (''line'', JNum 5),
                              (''message'', JStr ''1:m'')]])])), fs_dir = None\<rparr>
             (constructor c f False)))
          p (Some (JStr ''a:5'')) (Some (JNum 1)) (Some (JStr ''m'')) = Inr (True, b')
        \<and> index b' = Some [(relative c p, [])]"
    by (simp add: isInBaseline_def load_def constructor_def loadSingleBaseline_def
        validateBaselineData_def validateFile_def validError_def buildIndex_def countHash_def
        errorHash_def fp Let_def)
  with pre fp show ?thesis by simp
qed

subsection \<open>Validation on load\<close>

lemma validError_iff:
  "validError e \<longleftrightarrow>
     (\<exists>kvs r n. e = JObj kvs \<and> map_of kvs ''ruleId'' = Some (JStr r)
        \<and> map_of kvs ''line'' = Some (JNum n))"
proof (cases e)
  case (JObj kvs)
  show ?thesis
  proof (cases "map_of kvs ''ruleId''")
    case None
    with JObj show ?thesis by (simp add: validError_def)
  next
    case (Some v)
    note Sv = this
    show ?thesis
    proof (cases "map_of kvs ''line''")
      case None
      with JObj Sv show ?thesis by (cases v) (simp_all add: validError_def)
    next
      case (Some w)
      with JObj Sv show ?thesis by (cases v; cases w) (simp_all add: validError_def)
    qed
  qed
qed (simp_all add: validError_def)






subsection \<open>Loaded documents\<close>

text \<open>Every document a load produces has distinct file keys.\<close>

lemma distinct_fold_validateFile:
  "distinct (map fst acc) \<Longrightarrow> distinct (map fst (fold validateFile files acc))"
proof (induction files arbitrary: acc)
  case Nil
  then show ?case by simp
next
  case (Cons p files)
  obtain k v where p: "p = (k, v)" by (cases p)
  have "distinct (map fst (validateFile (k, v) acc))"
    using Cons.prems by (cases v) (simp_all add: validateFile_def Let_def AList.distinct_update)
  from Cons.IH[OF this] show ?case by (simp add: p)
qed

lemma distinct_validate: "distinct (map fst (validateBaselineData j))"
  by (cases j) (simp_all add: validateBaselineData_def distinct_fold_validateFile)

lemma distinct_mergeValidated:
  "distinct (map fst merged) \<Longrightarrow> distinct (map fst (snd (mergeValidated d merged)))"
proof (induction d arbitrary: merged)
  case Nil
  then show ?case by simp
next
  case (Cons p d)
  obtain k v where p: "p = (k, v)" by (cases p)
  from Cons.prems Cons.IH show ?case by (simp add: p AList.distinct_update)
qed

lemma distinct_mergeRuleFiles:
  "distinct (map fst merged) \<Longrightarrow> distinct (map fst (mergeRuleFiles files merged))"
proof (induction files arbitrary: merged)
  case Nil
  then show ?case by simp
next
  case (Cons p files)
  obtain k c where p: "p = (k, c)" by (cases p)
  show ?case
  proof (cases c)
    case Malformed
    with Cons p show ?thesis by simp
  next
    case (Json j)
    obtain r m where r: "mergeValidated (validateBaselineData j) merged = (r, m)"
      by (cases "mergeValidated (validateBaselineData j) merged")
    from distinct_mergeValidated[OF Cons.prems, of "validateBaselineData j"] r
    have "distinct (map fst m)" by simp
    with Cons.IH[of m] p Json r show ?thesis by (cases r) simp_all
  qed
qed

lemma load_distinct:
  assumes "\<not> loaded b"
  shows "\<exists>d b'. load fs b = (Some d, b') \<and> distinct (map fst d) \<and> loaded b'
           \<and> data b' = Some d \<and> index b' = Some (buildIndex d)"
proof -
  have "distinct (map fst (loadSingleBaseline fs))"
    by (simp add: loadSingleBaseline_def distinct_validate split: option.splits content.splits)
  moreover have "distinct (map fst (loadSplitBaseline fs))"
    by (simp add: loadSplitBaseline_def distinct_mergeRuleFiles split: option.splits)
  ultimately show ?thesis using assms by (simp add: load_def Let_def)
qed

subsection \<open>The consuming lookup\<close>

lemma isInBaseline_loaded:
  assumes "loaded b" "index b = Some idx"
  shows "\<exists>b'. isInBaseline relative fs b filePath ruleId line message
               = Inr (1 \<le> remaining idx (relative (cwd b) filePath) (generateHash ruleId line message), b')
         \<and> data b' = data b \<and> loaded b' \<and> cwd b' = cwd b
         \<and> (\<exists>idx'. index b' = Some idx'
             \<and> (\<forall>file hash. remaining idx' file hash =
                  (if 1 \<le> remaining idx (relative (cwd b) filePath) (generateHash ruleId line message)
                      \<and> file = relative (cwd b) filePath \<and> hash = generateHash ruleId line message
                   then remaining idx file hash - 1 else remaining idx file hash))
             \<and> (remaining idx (relative (cwd b) filePath) (generateHash ruleId line message) = 1 \<longrightarrow>
                  (\<exists>hs. map_of idx' (relative (cwd b) filePath) = Some hs
                     \<and> map_of hs (generateHash ruleId line message) = None)))"
proof -
  let ?rp = "relative (cwd b) filePath"
  let ?h = "generateHash ruleId line message"
  show ?thesis
  proof (cases "map_of idx ?rp")
    case None
    with assms show ?thesis
      by (simp add: isInBaseline_def Let_def remaining_def)
  next
    case (Some hs)
    note hs = this
    show ?thesis
    proof (cases "map_of hs ?h")
      case None
      with assms hs show ?thesis
        by (simp add: isInBaseline_def Let_def remaining_def)
    next
      case (Some c)
      show ?thesis
      proof (cases "c = 0")
        case True
        with assms hs Some show ?thesis
          by (simp add: isInBaseline_def Let_def remaining_def)
      next
        case False
        let ?hs' = "if c = 1 then AList.delete ?h hs else AList.update ?h (c - 1) hs"
        let ?idx' = "AList.update ?rp ?hs' idx"
        let ?b' = "b\<lparr>index := Some ?idx'\<rparr>"
        have res: "isInBaseline relative fs b filePath ruleId line message = Inr (True, ?b')"
          using assms hs Some False by (simp add: isInBaseline_def Let_def)
        have rem: "remaining idx ?rp ?h = c" using hs Some by (simp add: remaining_def)
        have r': "remaining ?idx' f h' =
                  (if f = ?rp \<and> h' = ?h then c - 1 else remaining idx f h')" for f h'
          using hs Some False
          by (auto simp: remaining_def AList.update_conv' AList.delete_conv')
        have gone: "c = 1 \<Longrightarrow> map_of ?idx' ?rp = Some ?hs' \<and> map_of ?hs' ?h = None"
          by (simp add: AList.update_conv' AList.delete_conv')
        from res rem r' gone False assms(1) show ?thesis
          by (auto simp: AList.update_conv')
      qed
    qed
  qed
qed

text \<open>
  C1. On a loaded engine, \<^verbatim>\<open>isInBaseline(filePath, ruleId, line, message)\<close> returns true
  exactly when the fingerprint of \<^verbatim>\<open>(ruleId, line, message)\<close> has a remaining count of at
  least 1 in the index entry of the path of \<^verbatim>\<open>filePath\<close> relative to the root. It then
  lowers that count by one and leaves every other count as it was, and when the count was 1
  the fingerprint is removed from the file's map. Otherwise it returns false and the index
  is unchanged. The document is never touched.
\<close>

theorem isInBaseline_consumes:
  assumes "loaded b" "index b = Some idx"
  shows "\<exists>b'. isInBaseline relative fs b filePath ruleId line message
               = Inr (1 \<le> remaining idx (relative (cwd b) filePath) (generateHash ruleId line message), b')
         \<and> data b' = data b \<and> loaded b' \<and> cwd b' = cwd b
         \<and> (\<exists>idx'. index b' = Some idx'
             \<and> (\<forall>file hash. remaining idx' file hash =
                  (if 1 \<le> remaining idx (relative (cwd b) filePath) (generateHash ruleId line message)
                      \<and> file = relative (cwd b) filePath \<and> hash = generateHash ruleId line message
                   then remaining idx file hash - 1 else remaining idx file hash))
             \<and> (remaining idx (relative (cwd b) filePath) (generateHash ruleId line message) = 1 \<longrightarrow>
                  (\<exists>hs. map_of idx' (relative (cwd b) filePath) = Some hs
                     \<and> map_of hs (generateHash ruleId line message) = None)))"
  using assms by (rule isInBaseline_loaded)

text \<open>
  The match index after a load holds, for each file and fingerprint, the number of loaded
  findings of that file with that fingerprint.
\<close>

lemma fold_countHash:
  "map_of (fold countHash es hs) h =
     (case map_of hs h of
        None \<Rightarrow> if filter (\<lambda>e. errorHash e = h) es = [] then None
                else Some (length (filter (\<lambda>e. errorHash e = h) es))
      | Some c \<Rightarrow> Some (c + length (filter (\<lambda>e. errorHash e = h) es)))"
proof (induction es arbitrary: hs)
  case Nil
  then show ?case by (simp split: option.splits)
next
  case (Cons e es)
  have step: "map_of (countHash e hs) h =
      (if errorHash e = h then Some ((case map_of hs h of None \<Rightarrow> 0 | Some c \<Rightarrow> c) + 1)
       else map_of hs h)"
    by (simp add: countHash_def Let_def AList.update_conv')
  show ?case
    by (simp add: Cons.IH step split: option.splits)
qed

lemma fold_buildIndex:
  "distinct (map fst d) \<Longrightarrow>
   map_of (fold (\<lambda>(file, errors) idx. AList.update file (fold countHash errors []) idx) d acc) f =
     (case map_of d f of None \<Rightarrow> map_of acc f | Some es \<Rightarrow> Some (fold countHash es []))"
proof (induction d arbitrary: acc)
  case Nil
  then show ?case by simp
next
  case (Cons p d)
  obtain k es where p: "p = (k, es)" by (cases p)
  from Cons.prems p have "distinct (map fst d)" and none: "map_of d k = None"
    by (auto simp: map_of_eq_None_iff)
  from Cons.IH[OF this(1)] none show ?case
    by (simp add: p AList.update_conv' split: option.splits)
qed

lemma buildIndex_remaining:
  "distinct (map fst d) \<Longrightarrow>
   remaining (buildIndex d) file hash = length (filter (\<lambda>e. errorHash e = hash) (entriesOf d file))"
  by (simp add: remaining_def buildIndex_def fold_buildIndex fold_countHash entriesOf_def
      split: option.splits)

text \<open>
  With the same finding twice in the baseline of a file, two identical lookups return true
  and a third returns false; nothing is then left unmatched.
\<close>

lemma load_exTwice:
  "load (exDisk exTwice) (exEngine False) =
     (Some exTwice,
      \<lparr>cwd = ''/repo'', baselineFile = ''.eslintbaseline.json'', splitByRule = False,
        data = Some exTwice,
        index = Some [(''f'', [(generateHash (Some (JStr ''r'')) (Some (JNum 5)) (Some (JStr ''m'')), 2)])],
        loaded = True\<rparr>)"
  by (simp add: load_def exDisk_def exEngine_def constructor_def exTwice_def stringify_def
      loadSingleBaseline_def validateBaselineData_def validateFile_def validError_def
      buildIndex_def countHash_def errorHash_def Let_def)

theorem isInBaseline_consumes_witness:
  "loaded (snd (load (exDisk exTwice) (exEngine False)))
   \<and> index (snd (load (exDisk exTwice) (exEngine False)))
       = Some [(''f'', [(generateHash (Some (JStr ''r'')) (Some (JNum 5)) (Some (JStr ''m'')), 2)])]
   \<and> (\<exists>b'. isInBaseline exRelative (exDisk exTwice) (snd (load (exDisk exTwice) (exEngine False)))
              ''/repo/f'' (Some (JStr ''r'')) (Some (JNum 5)) (Some (JStr ''m'')) = Inr (True, b'))
   \<and> (\<exists>b'. lookups exRelative (exDisk exTwice) (snd (load (exDisk exTwice) (exEngine False)))
              [exQuery, exQuery, exQuery] = Inr ([True, True, False], b')
            \<and> getUnmatched b' = Inr [])"
proof -
  let ?b = "snd (load (exDisk exTwice) (exEngine False))"
  let ?idx = "[(''f'', [(generateHash (Some (JStr ''r'')) (Some (JNum 5)) (Some (JStr ''m'')), 2::nat)])]"
  have h1: "loaded ?b" by (simp add: load_exTwice)
  have h2: "index ?b = Some ?idx" by (simp add: load_exTwice)
  have rem: "remaining ?idx (exRelative (cwd ?b) ''/repo/f'')
               (generateHash (Some (JStr ''r'')) (Some (JNum 5)) (Some (JStr ''m''))) = 2"
    by (simp add: load_exTwice remaining_def exRelative_def)
  from isInBaseline_consumes[OF h1 h2, of exRelative "exDisk exTwice" "''/repo/f''"
      "Some (JStr ''r'')" "Some (JNum 5)" "Some (JStr ''m'')"] rem
  have first: "\<exists>b'. isInBaseline exRelative (exDisk exTwice) ?b
              ''/repo/f'' (Some (JStr ''r'')) (Some (JNum 5)) (Some (JStr ''m'')) = Inr (True, b')"
    by auto
  have chain: "\<exists>b'. lookups exRelative (exDisk exTwice) ?b
              [exQuery, exQuery, exQuery] = Inr ([True, True, False], b')
            \<and> getUnmatched b' = Inr []"
    by (simp add: load_exTwice exQuery_def isInBaseline_def exRelative_def Let_def
        getUnmatched_def)
  from h1 h2 first chain show ?thesis by blast
qed

subsection \<open>Statistics\<close>

lemma lookups_frame:
  assumes "loaded b" "index b = Some idx"
  shows "\<exists>rs b' idx'. lookups relative fs b qs = Inr (rs, b') \<and> data b' = data b \<and> loaded b'
           \<and> index b' = Some idx' \<and> length rs = length qs"
  using assms
proof (induction qs arbitrary: b idx)
  case Nil
  then show ?case by simp
next
  case (Cons q qs)
  obtain filePath ruleId line message where q: "q = (filePath, ruleId, line, message)"
    by (cases q)
  from isInBaseline_loaded[OF Cons.prems, of relative fs filePath ruleId line message]
  obtain r b1 idx1 where 1: "isInBaseline relative fs b filePath ruleId line message = Inr (r, b1)"
    "data b1 = data b" "loaded b1" "index b1 = Some idx1" by blast
  from Cons.IH[OF 1(3) 1(4)] obtain rs b2 idx2 where
    2: "lookups relative fs b1 qs = Inr (rs, b2)" "data b2 = data b1" "loaded b2"
       "index b2 = Some idx2" "length rs = length qs" by blast
  from 1 2 q show ?case by simp
qed

lemma getStats_loaded:
  "loaded b \<Longrightarrow> data b = Some d \<Longrightarrow>
   \<exists>s. getStats fs b = Inr (s, b) \<and> (\<forall>fs' b'. loaded b' \<longrightarrow> data b' = Some d \<longrightarrow> getStats fs' b' = Inr (s, b'))"
  by (simp add: getStats_def Let_def split: prod.splits)

text \<open>
  C8. On a loaded engine, after any sequence of \<^verbatim>\<open>isInBaseline\<close> calls, \<^verbatim>\<open>getStats\<close>
  returns the statistics it returned before them: lookups consume index entries only.
\<close>

theorem getStats_unaffected_by_lookups:
  assumes "loaded b" "index b = Some idx" "data b = Some d"
  shows "\<exists>rs b' s. lookups relative fs b qs = Inr (rs, b')
           \<and> getStats fs1 b = Inr (s, b) \<and> getStats fs2 b' = Inr (s, b')"
proof -
  from lookups_frame[OF assms(1,2), of relative fs qs] obtain rs b' where
    l: "lookups relative fs b qs = Inr (rs, b')" "data b' = data b" "loaded b'" by blast
  from getStats_loaded[OF assms(1,3), of fs1] obtain s where
    s: "getStats fs1 b = Inr (s, b)"
       "\<And>fs' b'. loaded b' \<Longrightarrow> data b' = Some d \<Longrightarrow> getStats fs' b' = Inr (s, b')" by blast
  from s(2)[of b' fs2] l assms(3) have "getStats fs2 b' = Inr (s, b')" by simp
  with l(1) s(1) show ?thesis by blast
qed

lemma errorHash_exA: "errorHash exA = ''731bf304fe36''"
  by code_simp

lemma errorHash_exB: "errorHash exB = ''8643f5db4038''"
  by code_simp

lemma errorHash_exC: "errorHash exC = ''79ee633bf1e1''"
  by code_simp

lemma validEntry_ex: "validEntry exA" "validEntry exB" "validEntry exC" "validEntry exN"
  by (simp_all add: validEntry_def validError_def exA_def exB_def exC_def exN_def)

lemma load_exThree:
  "load (exDisk exThree) (exEngine False) =
     (Some exThree,
      \<lparr>cwd = ''/repo'', baselineFile = ''.eslintbaseline.json'', splitByRule = False,
        data = Some exThree,
        index = Some [(''src/file.ts'',
                  [(''731bf304fe36'', 1), (''8643f5db4038'', 1), (''79ee633bf1e1'', 1)])],
        loaded = True\<rparr>)"
  using validEntry_ex
  by (simp add: load_def exDisk_def exEngine_def constructor_def exThree_def stringify_def
      loadSingleBaseline_def validateBaselineData_def validateFile_def validEntry_def
      buildIndex_def countHash_def errorHash_exA errorHash_exB errorHash_exC Let_def)

theorem getStats_unaffected_by_lookups_witness:
  "loaded (snd (load (exDisk exThree) (exEngine False)))
   \<and> data (snd (load (exDisk exThree) (exEngine False))) = Some exThree
   \<and> (\<exists>rs b' s. lookups exRelative (exDisk exThree) (snd (load (exDisk exThree) (exEngine False)))
          [(''/repo/src/file.ts'', Some (JStr ''no-console''), Some (JNum 20), Some (JStr ''Error 2''))]
          = Inr (rs, b')
        \<and> getStats (exDisk exThree) (snd (load (exDisk exThree) (exEngine False)))
            = Inr (s, snd (load (exDisk exThree) (exEngine False)))
        \<and> getStats (exDisk exThree) b' = Inr (s, b'))"
proof -
  let ?b = "snd (load (exDisk exThree) (exEngine False))"
  have h1: "loaded ?b" by (simp add: load_exThree)
  have h2: "index ?b = Some [(''src/file.ts'',
                  [(''731bf304fe36'', 1), (''8643f5db4038'', 1), (''79ee633bf1e1'', 1)])]"
    by (simp add: load_exThree)
  have h3: "data ?b = Some exThree" by (simp add: load_exThree)
  from getStats_unaffected_by_lookups[OF h1 h2 h3] h1 h3 show ?thesis by blast
qed

text \<open>
  C5. On an engine that was never loaded, \<^verbatim>\<open>isInBaseline\<close> and \<^verbatim>\<open>getStats\<close> load first
  and return a result, but \<^verbatim>\<open>getUnmatched()\<close> throws a \<^verbatim>\<open>TypeError\<close>: it does not load,
  and iterates over an index that is \<^verbatim>\<open>null\<close>. The same holds after \<^verbatim>\<open>reset()\<close>.
\<close>

theorem unloaded_engine_operations:
  "(\<exists>r. isInBaseline relative fs (constructor c f s) p ruleId line message = Inr r)
   \<and> (\<exists>r. getStats fs (constructor c f s) = Inr r)
   \<and> getUnmatched (constructor c f s) = Inl TypeError
   \<and> getUnmatched (reset b) = Inl TypeError"
proof -
  let ?b = "snd (load fs (constructor c f s))"
  have e: "isInBaseline relative fs (constructor c f s) p ruleId line message
           = isInBaseline relative fs ?b p ruleId line message"
    by (simp add: isInBaseline_def load_def constructor_def Let_def)
  have l: "loaded ?b"
    "index ?b = Some (buildIndex (if s then loadSplitBaseline fs else loadSingleBaseline fs))"
    by (simp_all add: load_def constructor_def Let_def)
  from isInBaseline_loaded[OF l, of relative fs p ruleId line message] e
  have 1: "\<exists>r. isInBaseline relative fs (constructor c f s) p ruleId line message = Inr r"
    by auto
  have 2: "\<exists>r. getStats fs (constructor c f s) = Inr r"
    by (simp add: getStats_def load_def constructor_def Let_def split: prod.splits)
  have 3: "getUnmatched (constructor c f s) = Inl TypeError"
    "getUnmatched (reset b) = Inl TypeError"
    by (simp_all add: getUnmatched_def constructor_def reset_def)
  from 1 2 3 show ?thesis by blast
qed

text \<open>In a loaded state none of the three operations throws.\<close>

lemma loaded_engine_operations_return:
  assumes "loaded b" "index b = Some idx" "data b = Some d"
  shows "(\<exists>r. isInBaseline relative fs b p ruleId line message = Inr r)
       \<and> (\<exists>r. getStats fs b = Inr r)
       \<and> (\<exists>r. getUnmatched b = Inr r)"
proof -
  from isInBaseline_loaded[OF assms(1,2), of relative fs p ruleId line message]
  have 1: "\<exists>r. isInBaseline relative fs b p ruleId line message = Inr r" by auto
  from getStats_loaded[OF assms(1,3), of fs]
  have 2: "\<exists>r. getStats fs b = Inr r" by auto
  have 3: "\<exists>r. getUnmatched b = Inr r" using assms(2,3) by (simp add: getUnmatched_def)
  from 1 2 3 show ?thesis by blast
qed

subsection \<open>Pruning\<close>

lemma fold_pruneError:
  "fold (pruneError ch) es (ke, k, r) =
     (ke @ filter (\<lambda>e. errorHash e \<in> set ch) es,
      k + length (filter (\<lambda>e. errorHash e \<in> set ch) es),
      r + (length es - length (filter (\<lambda>e. errorHash e \<in> set ch) es)))"
proof (induction es arbitrary: ke k r)
  case Nil
  then show ?case by simp
next
  case (Cons e es)
  have le: "length (filter (\<lambda>e. errorHash e \<in> set ch) es) \<le> length es" by simp
  have step: "pruneError ch e (ke, k, r) =
      (if errorHash e \<in> set ch then (ke @ [e], k + 1, r) else (ke, k, r + 1))"
    by (simp add: pruneError_def)
  from le show ?case by (simp add: step Cons.IH Suc_diff_le)
qed

lemma set_fold_insert:
  "set (fold (\<lambda>error hs. List.insert (errorHash error) hs) cs acc) = errorHash ` set cs \<union> set acc"
  by (induction cs arbitrary: acc) auto

lemma fold_currentIndex:
  "distinct (map fst c) \<Longrightarrow>
   map_of (fold (\<lambda>(file, errors) ci.
             AList.update file (fold (\<lambda>error hs. List.insert (errorHash error) hs) errors []) ci)
          c acc) f =
     (case map_of c f of
        None \<Rightarrow> map_of acc f
      | Some cs \<Rightarrow> Some (fold (\<lambda>error hs. List.insert (errorHash error) hs) cs []))"
proof (induction c arbitrary: acc)
  case Nil
  then show ?case by simp
next
  case (Cons p c)
  obtain k es where p: "p = (k, es)" by (cases p)
  from Cons.prems p have "distinct (map fst c)" and none: "map_of c k = None"
    by (auto simp: map_of_eq_None_iff)
  from Cons.IH[OF this(1)] none show ?case
    by (simp add: p AList.update_conv' split: option.splits)
qed

lemma pruneFile_keptOf:
  assumes "distinct (map fst c)"
  shows "pruneFile (currentIndex c) (f, es) r =
     \<lparr>pruned = (if keptOf c f es = [] then pruned r else AList.update f (keptOf c f es) (pruned r)),
      removedCount = removedCount r + (length es - length (keptOf c f es)),
      keptCount = keptCount r + length (keptOf c f es)\<rparr>"
proof (cases "map_of c f")
  case None
  then show ?thesis
    by (simp add: pruneFile_def currentIndex_def fold_currentIndex[OF assms] keptOf_def)
next
  case (Some cs)
  then show ?thesis
    by (simp add: pruneFile_def currentIndex_def fold_currentIndex[OF assms] keptOf_def
        fold_pruneError set_fold_insert)
qed

lemma fold_pruneFile:
  assumes "distinct (map fst c)"
  shows "distinct (map fst d) \<Longrightarrow>
   (\<forall>f. map_of (pruned (fold (pruneFile (currentIndex c)) d r)) f =
      (case map_of d f of
         None \<Rightarrow> map_of (pruned r) f
       | Some es \<Rightarrow> if keptOf c f es = [] then map_of (pruned r) f else Some (keptOf c f es)))
   \<and> keptCount (fold (pruneFile (currentIndex c)) d r)
       = keptCount r + sum_list (map (\<lambda>(f, es). length (keptOf c f es)) d)
   \<and> removedCount (fold (pruneFile (currentIndex c)) d r)
       = removedCount r + sum_list (map (\<lambda>(f, es). length es - length (keptOf c f es)) d)"
proof (induction d arbitrary: r)
  case Nil
  then show ?case by simp
next
  case (Cons p d)
  obtain k es where p: "p = (k, es)" by (cases p)
  from Cons.prems p have dist: "distinct (map fst d)" and none: "map_of d k = None"
    by (auto simp: map_of_eq_None_iff)
  let ?r1 = "pruneFile (currentIndex c) (k, es) r"
  note r1 = pruneFile_keptOf[OF assms, of k es r]
  from Cons.IH[OF dist, of ?r1] none show ?case
    by (simp add: p r1 AList.update_conv' split: option.splits)
qed

lemma length_keptOf: "length (keptOf c f es) \<le> length es"
  by (simp add: keptOf_def split: option.splits)

lemma sum_kept_removed:
  "sum_list (map (\<lambda>(f, es). length (keptOf c f es)) d)
     + sum_list (map (\<lambda>(f, es). length es - length (keptOf c f es)) d)
   = sum_list (map (\<lambda>(f, es). length es) d)"
proof (induction d)
  case Nil
  then show ?case by simp
next
  case (Cons p d)
  obtain k es where p: "p = (k, es)" by (cases p)
  from length_keptOf[of c k es] Cons.IH show ?case by (simp add: p)
qed

text \<open>
  C6. For a loaded baseline document \<open>B\<close> and current findings \<open>C\<close>, \<^verbatim>\<open>prune(C)\<close> returns
  a document that holds, for each file of \<open>B\<close>, exactly the entries whose fingerprint
  occurs among the findings of that file in \<open>C\<close>, in their order. A file with no such
  entry, in particular a file absent from \<open>C\<close>, is dropped and all its entries are counted
  as removed. The kept and removed counts add up to the number of entries of \<open>B\<close>. The
  engine is unchanged.
\<close>

theorem prune_keeps_current:
  assumes "loaded b" "data b = Some B" "distinct (map fst B)" "distinct (map fst C)"
  shows "\<exists>r. prune fs b C = Inr (r, b)
     \<and> (\<forall>f. map_of (pruned r) f =
          (case map_of B f of
             None \<Rightarrow> None
           | Some es \<Rightarrow> if keptOf C f es = [] then None else Some (keptOf C f es)))
     \<and> keptCount r = sum_list (map (\<lambda>(f, es). length (keptOf C f es)) B)
     \<and> removedCount r = sum_list (map (\<lambda>(f, es). length es - length (keptOf C f es)) B)
     \<and> keptCount r + removedCount r = sum_list (map (\<lambda>(f, es). length es) B)"
proof -
  let ?r = "fold (pruneFile (currentIndex C)) B \<lparr>pruned = [], removedCount = 0, keptCount = 0\<rparr>"
  have res: "prune fs b C = Inr (?r, b)"
    using assms(1,2) by (simp add: prune_def Let_def)
  from fold_pruneFile[OF assms(4) assms(3), of "\<lparr>pruned = [], removedCount = 0, keptCount = 0\<rparr>"]
  have 1: "\<And>f. map_of (pruned ?r) f =
          (case map_of B f of
             None \<Rightarrow> None
           | Some es \<Rightarrow> if keptOf C f es = [] then None else Some (keptOf C f es))"
    and 2: "keptCount ?r = sum_list (map (\<lambda>(f, es). length (keptOf C f es)) B)"
    and 3: "removedCount ?r = sum_list (map (\<lambda>(f, es). length es - length (keptOf C f es)) B)"
    by (simp_all split: option.splits)
  from 2 3 sum_kept_removed[of C B]
  have 4: "keptCount ?r + removedCount ?r = sum_list (map (\<lambda>(f, es). length es) B)" by simp
  from res 1 2 3 4 show ?thesis by blast
qed

theorem prune_keeps_current_witness:
  "loaded (snd (load (exDisk exThree) (exEngine False)))
   \<and> data (snd (load (exDisk exThree) (exEngine False))) = Some exThree
   \<and> distinct (map fst exThree)
   \<and> distinct (map fst [(''src/file.ts'', [exA, exB])])
   \<and> prune (exDisk exThree) (snd (load (exDisk exThree) (exEngine False)))
        [(''src/file.ts'', [exA, exB])]
      = Inr (\<lparr>pruned = [(''src/file.ts'', [exA, exB])], removedCount = 1, keptCount = 2\<rparr>,
             snd (load (exDisk exThree) (exEngine False)))
   \<and> prune (exDisk exThree) (snd (load (exDisk exThree) (exEngine False))) []
      = Inr (\<lparr>pruned = [], removedCount = 3, keptCount = 0\<rparr>,
             snd (load (exDisk exThree) (exEngine False)))"
proof -
  let ?b = "snd (load (exDisk exThree) (exEngine False))"
  have h1: "loaded ?b" by (simp add: load_exThree)
  have h2: "data ?b = Some exThree" by (simp add: load_exThree)
  have h3: "distinct (map fst exThree)" by (simp add: exThree_def)
  have h4: "distinct (map fst [(''src/file.ts'', [exA, exB])])" by simp
  note inst = prune_keeps_current[OF h1 h2 h3 h4, of "exDisk exThree"]
  have p1: "prune (exDisk exThree) ?b [(''src/file.ts'', [exA, exB])]
      = Inr (\<lparr>pruned = [(''src/file.ts'', [exA, exB])], removedCount = 1, keptCount = 2\<rparr>, ?b)"
    using h1 h2
    by (simp add: prune_def Let_def exThree_def currentIndex_def pruneFile_def
        pruneError_def errorHash_exA errorHash_exB errorHash_exC)
  have p2: "prune (exDisk exThree) ?b []
      = Inr (\<lparr>pruned = [], removedCount = 3, keptCount = 0\<rparr>, ?b)"
    using h1 h2
    by (simp add: prune_def Let_def exThree_def currentIndex_def pruneFile_def)
  from inst h1 h2 h3 h4 p1 p2 show ?thesis by blast
qed

subsection \<open>Lifecycle\<close>

lemma validate_roundtrip_fold:
  "distinct (map fst d) \<Longrightarrow> set (map fst d) \<inter> fst ` set acc = {} \<Longrightarrow>
   list_all (\<lambda>(file, es). es \<noteq> [] \<and> list_all validEntry es) d \<Longrightarrow>
   fold validateFile (map (\<lambda>(file, errors). (file, JArr (map JObj errors))) d) acc = acc @ d"
proof (induction d arbitrary: acc)
  case Nil
  then show ?case by simp
next
  case (Cons p d)
  obtain k es where p: "p = (k, es)" by (cases p)
  from Cons.prems p have ne: "es \<noteq> []" and val: "list_all validEntry es"
    and fresh: "k \<notin> fst ` set acc" by auto
  from val have f: "filter validError (map JObj es) = map JObj es"
    by (induction es) (auto simp: validEntry_def)
  have m: "map (asEntry \<circ> JObj) es = es" by (induction es) auto
  have step: "validateFile (k, JArr (map JObj es)) acc = acc @ [(k, es)]"
    using ne fresh by (simp add: validateFile_def f m update_fresh)
  have "fold validateFile (map (\<lambda>(file, errors). (file, JArr (map JObj errors))) d) (acc @ [(k, es)])
        = (acc @ [(k, es)]) @ d"
    using Cons.prems p by (intro Cons.IH) auto
  with step p show ?case by simp
qed

lemma validate_stringify:
  "wellFormed d \<Longrightarrow> stringify d = Json j \<Longrightarrow> validateBaselineData j = d"
  using validate_roundtrip_fold[of d "[]"]
  by (auto simp: wellFormed_def stringify_def validateBaselineData_def)

lemma endsWith_json: "endsWith (k @ ''.json'') ''.json''"
  by (simp add: endsWith_def)

lemma json_name_loader: "k @ ''.json'' = ''_loader.json'' \<longleftrightarrow> k = ''_loader''"
proof -
  have "''_loader.json'' = ''_loader'' @ ''.json''" by simp
  then show ?thesis by (simp only: append_same_eq)
qed

lemma protoNames_proto: "''__proto__'' \<in> set protoNames"
  by (simp add: protoNames_def)

lemma mergeValidated_fresh:
  "distinct (map fst d) \<Longrightarrow> plainKeys d \<Longrightarrow> set (map fst d) \<inter> fst ` set acc = {} \<Longrightarrow>
   mergeValidated d acc = (None, acc @ d)"
proof (induction d arbitrary: acc)
  case Nil
  then show ?case by simp
next
  case (Cons p d)
  obtain k es where p: "p = (k, es)" by (cases p)
  from Cons.prems p have plain: "k \<notin> set protoNames" and fresh: "k \<notin> fst ` set acc"
    by (auto simp: plainKeys_def)
  from plain protoNames_proto have np: "k \<noteq> ''__proto__''" by auto
  from fresh have none: "map_of acc k = None" by (simp add: map_of_eq_None_iff)
  have "mergeValidated d (acc @ [(k, es)]) = (None, (acc @ [(k, es)]) @ d)"
    using Cons.prems p by (intro Cons.IH) (auto simp: plainKeys_def)
  with plain np none fresh show ?case by (simp add: p update_fresh)
qed

text \<open>What a load reads from a baseline file, and from a directory that holds one rule document.\<close>

lemma loadSingle_stringify:
  assumes "wellFormed d" and "fs_file fs = Some (stringify d)"
  shows "loadSingleBaseline fs = d"
proof -
  obtain j where j: "stringify d = Json j" by (simp add: stringify_def)
  from validate_stringify[OF assms(1) j] assms(2) j show ?thesis
    by (simp add: loadSingleBaseline_def)
qed

lemma loadSplit_one_rule:
  assumes "wellFormed d" and "plainKeys d" and "rule \<noteq> ''_loader''"
    and "fs_dir fs = Some [(rule @ ''.json'', stringify d), (''_loader.json'', c)]"
  shows "loadSplitBaseline fs = d"
proof -
  obtain j where j: "stringify d = Json j" by (simp add: stringify_def)
  from assms(1) have dist: "distinct (map fst d)" by (simp add: wellFormed_def)
  have m: "mergeValidated d [] = (None, d)"
    using mergeValidated_fresh[OF dist assms(2), of "[]"] by simp
  from assms(3) have n: "rule @ ''.json'' \<noteq> ''_loader.json''" by (simp add: json_name_loader)
  show ?thesis
    using validate_stringify[OF assms(1) j] m n
    by (simp add: loadSplitBaseline_def assms(4) endsWith_json j)
qed

text \<open>
  C9. \<^verbatim>\<open>load()\<close> on a loaded engine changes nothing and returns the cached document,
  whatever is on disk. \<^verbatim>\<open>reset()\<close> clears document and index and returns the engine to
  the state of a new engine with the same configuration, and the next \<^verbatim>\<open>load()\<close> reads
  the disk as it then is, in the engine's storage mode: it returns the document that the
  baseline file holds, or that the rule file of the directory holds, and caches it with
  its index.
\<close>

theorem load_idempotent_reset_reloads:
  "(loaded b \<longrightarrow> load fs b = (data b, b))
   \<and> reset b = constructor (cwd b) (baselineFile b) (splitByRule b)
   \<and> data (reset b) = None \<and> index (reset b) = None \<and> \<not> loaded (reset b)
   \<and> load fs (reset b) =
       (let d = (if splitByRule b then loadSplitBaseline fs else loadSingleBaseline fs)
        in (Some d, b\<lparr>data := Some d, index := Some (buildIndex d), loaded := True\<rparr>))
   \<and> (wellFormed d \<and> plainKeys d \<longrightarrow>
        (\<not> splitByRule b \<longrightarrow> fs_file fs = Some (stringify d) \<longrightarrow>
           load fs (reset b)
             = (Some d, b\<lparr>data := Some d, index := Some (buildIndex d), loaded := True\<rparr>))
      \<and> (splitByRule b \<longrightarrow> rule \<noteq> ''_loader'' \<longrightarrow>
           fs_dir fs = Some [(rule @ ''.json'', stringify d), (''_loader.json'', c)] \<longrightarrow>
           load fs (reset b)
             = (Some d, b\<lparr>data := Some d, index := Some (buildIndex d), loaded := True\<rparr>)))"
proof -
  have a: "loaded b \<longrightarrow> load fs b = (data b, b)" by (simp add: load_def)
  have r: "reset b = constructor (cwd b) (baselineFile b) (splitByRule b)"
    by (cases b) (simp add: reset_def constructor_def)
  have l: "load fs (reset b) =
       (let d = (if splitByRule b then loadSplitBaseline fs else loadSingleBaseline fs)
        in (Some d, b\<lparr>data := Some d, index := Some (buildIndex d), loaded := True\<rparr>))"
    by (simp add: load_def reset_def Let_def)
  have s: "load fs (reset b)
             = (Some d, b\<lparr>data := Some d, index := Some (buildIndex d), loaded := True\<rparr>)"
    if "wellFormed d" "\<not> splitByRule b" "fs_file fs = Some (stringify d)"
    using loadSingle_stringify[OF that(1,3)] that(2) by (simp add: l)
  have p: "load fs (reset b)
             = (Some d, b\<lparr>data := Some d, index := Some (buildIndex d), loaded := True\<rparr>)"
    if "wellFormed d" "plainKeys d" "splitByRule b" "rule \<noteq> ''_loader''"
       "fs_dir fs = Some [(rule @ ''.json'', stringify d), (''_loader.json'', c)]"
    using loadSplit_one_rule[OF that(1,2,4,5)] that(3) by (simp add: l)
  have e: "data (reset b) = None \<and> index (reset b) = None \<and> \<not> loaded (reset b)"
    by (simp add: reset_def)
  from a r e l s p show ?thesis by blast
qed

lemma wellFormed_exTwice: "wellFormed exTwice"
  by (simp add: wellFormed_def exTwice_def validEntry_def validError_def)

lemma wellFormed_exThree: "wellFormed exThree"
  using validEntry_ex by (simp add: wellFormed_def exThree_def)

theorem load_idempotent_reset_reloads_witness:
  "loaded (snd (load (exDisk exThree) (exEngine False)))
   \<and> data (snd (load (exDisk exThree) (exEngine False))) = Some exThree
   \<and> load (exDisk exTwice) (snd (load (exDisk exThree) (exEngine False)))
       = (Some exThree, snd (load (exDisk exThree) (exEngine False)))
   \<and> wellFormed exTwice \<and> plainKeys exTwice
   \<and> fs_file (exDisk exTwice) = Some (stringify exTwice)
   \<and> fst (load (exDisk exTwice) (reset (snd (load (exDisk exThree) (exEngine False)))))
       = Some exTwice
   \<and> loaded (snd (load exSplitDisk (exEngine True)))
   \<and> data (snd (load exSplitDisk (exEngine True))) = Some [(''src/file.ts'', [exB, exA])]
   \<and> load exSplitDisk2 (snd (load exSplitDisk (exEngine True)))
       = (Some [(''src/file.ts'', [exB, exA])], snd (load exSplitDisk (exEngine True)))
   \<and> fst (load exSplitDisk2 (reset (snd (load exSplitDisk (exEngine True)))))
       = Some [(''src/file.ts'', [exC])]"
proof -
  let ?b1 = "snd (load (exDisk exThree) (exEngine False))"
  let ?b2 = "snd (load exSplitDisk (exEngine True))"
  have f1: "fs_file (exDisk exThree) = Some (stringify exThree)"
    and f2: "fs_file (exDisk exTwice) = Some (stringify exTwice)"
    by (simp_all add: exDisk_def)
  have b1: "loaded ?b1" "data ?b1 = Some exThree" "\<not> splitByRule ?b1"
    using loadSingle_stringify[OF wellFormed_exThree f1]
    by (simp_all add: load_def exEngine_def constructor_def Let_def)
  have k2: "plainKeys exTwice" by (simp add: plainKeys_def exTwice_def protoNames_def)
  have wB: "wellFormed [(''src/file.ts'', [exB])]" "wellFormed [(''src/file.ts'', [exA])]"
    "wellFormed [(''src/file.ts'', [exC])]"
    using validEntry_ex by (simp_all add: wellFormed_def)
  have kB: "plainKeys [(''src/file.ts'', es)]" for es
    by (simp add: plainKeys_def protoNames_def)
  have vB: "validateBaselineData (JObj [(''src/file.ts'', JArr [JObj exB])]) = [(''src/file.ts'', [exB])]"
    "validateBaselineData (JObj [(''src/file.ts'', JArr [JObj exA])]) = [(''src/file.ts'', [exA])]"
    using validate_stringify[OF wB(1)] validate_stringify[OF wB(2)] by (simp_all add: stringify_def)
  have ld: "loadSplitBaseline exSplitDisk = [(''src/file.ts'', [exB, exA])]"
    by (simp add: loadSplitBaseline_def exSplitDisk_def endsWith_def stringify_def vB
        protoNames_def)
  have b2: "loaded ?b2" "data ?b2 = Some [(''src/file.ts'', [exB, exA])]" "splitByRule ?b2"
    using ld by (simp_all add: load_def exEngine_def constructor_def Let_def)
  have d2: "fs_dir exSplitDisk2
      = Some [(''no-debugger'' @ ''.json'', stringify [(''src/file.ts'', [exC])]),
              (''_loader.json'', loaderFile [''no-debugger.json''])]"
    by (simp add: exSplitDisk2_def)
  have n: "''no-debugger'' \<noteq> ''_loader''" by simp
  note i1 = load_idempotent_reset_reloads[of ?b1 "exDisk exTwice" exTwice "[]" Malformed]
  from i1 b1(1) have "load (exDisk exTwice) ?b1 = (data ?b1, ?b1)" by blast
  with b1(2) have c1: "load (exDisk exTwice) ?b1 = (Some exThree, ?b1)" by simp
  from i1 b1(3) wellFormed_exTwice k2 f2
  have "load (exDisk exTwice) (reset ?b1)
          = (Some exTwice, ?b1\<lparr>data := Some exTwice, index := Some (buildIndex exTwice),
                                loaded := True\<rparr>)" by blast
  then have c2: "fst (load (exDisk exTwice) (reset ?b1)) = Some exTwice" by simp
  note i2 = load_idempotent_reset_reloads[of ?b2 exSplitDisk2 "[(''src/file.ts'', [exC])]"
      "''no-debugger''" "loaderFile [''no-debugger.json'']"]
  from i2 b2(1) have "load exSplitDisk2 ?b2 = (data ?b2, ?b2)" by blast
  with b2(2) have c3: "load exSplitDisk2 ?b2 = (Some [(''src/file.ts'', [exB, exA])], ?b2)"
    by simp
  from i2 b2(3) wB(3) kB[of "[exC]"] d2 n
  have "load exSplitDisk2 (reset ?b2)
          = (Some [(''src/file.ts'', [exC])],
             ?b2\<lparr>data := Some [(''src/file.ts'', [exC])],
                   index := Some (buildIndex [(''src/file.ts'', [exC])]), loaded := True\<rparr>)"
    by blast
  then have c4: "fst (load exSplitDisk2 (reset ?b2)) = Some [(''src/file.ts'', [exC])]" by simp
  from b1 b2 c1 c2 c3 c4 wellFormed_exTwice k2 f2 show ?thesis by blast
qed

subsection \<open>Sorting and the single-document round trip\<close>

lemma validEntry_ruleId:
  "validEntry e \<Longrightarrow> \<exists>r. map_of e ''ruleId'' = Some (JStr r) \<and> ruleIdOf e = r"
  by (auto simp: validEntry_def validError_iff ruleIdOf_def)

lemma compareErrors_valid: "validEntry a \<Longrightarrow> \<exists>v. compareErrors lc a b = Inr v"
  using validEntry_ruleId[of a]
  by (auto simp: compareErrors_def split: option.splits prod.splits)

lemma insert_by_ok:
  "\<forall>y \<in> set ys. \<exists>v. c x y = Inr v \<Longrightarrow>
   \<exists>zs. insert_by c x ys = Inr zs \<and> mset zs = add_mset x (mset ys)"
proof (induction ys)
  case Nil
  then show ?case by simp
next
  case (Cons y ys)
  from Cons.prems obtain v where v: "c x y = Inr v" by auto
  from Cons.IH Cons.prems obtain zs where
    zs: "insert_by c x ys = Inr zs" "mset zs = add_mset x (mset ys)" by auto
  show ?case using v zs by simp
qed

lemma sort_from_ok:
  "\<forall>x \<in> set xs. \<forall>y. \<exists>v. c x y = Inr v \<Longrightarrow>
   \<exists>zs. sort_from c xs acc = Inr zs \<and> mset zs = mset xs + mset acc"
proof (induction xs arbitrary: acc)
  case Nil
  then show ?case by simp
next
  case (Cons x xs)
  from Cons.prems have "\<forall>y \<in> set acc. \<exists>v. c x y = Inr v" by simp
  from insert_by_ok[of acc c x] this obtain acc' where
    a: "insert_by c x acc = Inr acc'" "mset acc' = add_mset x (mset acc)" by blast
  from Cons.IH[of acc'] Cons.prems obtain zs where
    z: "sort_from c xs acc' = Inr zs" "mset zs = mset xs + mset acc'" by auto
  show ?case using a z by simp
qed

lemma sort_by_valid:
  assumes "list_all validEntry es"
  shows "\<exists>zs. sort_by (compareErrors lc) es = Inr zs \<and> mset zs = mset es"
proof -
  from assms have "\<forall>x \<in> set es. \<forall>y. \<exists>v. compareErrors lc x y = Inr v"
    by (auto simp: list_all_iff compareErrors_valid)
  from sort_from_ok[OF this, of "[]"] show ?thesis by (simp add: sort_by_def)
qed

lemma sortKeys_ok:
  "distinct keys \<Longrightarrow> set keys \<inter> fst ` set acc = {} \<Longrightarrow> ''__proto__'' \<notin> set keys \<Longrightarrow>
   \<forall>k \<in> set keys. list_all validEntry (entriesOf d k) \<Longrightarrow>
   \<exists>S. sortKeys lc d keys acc = Inr (acc @ S) \<and> map fst S = keys
     \<and> list_all (\<lambda>(k, s). mset s = mset (entriesOf d k)) S"
proof (induction keys arbitrary: acc)
  case Nil
  then show ?case by simp
next
  case (Cons k keys)
  from Cons.prems have v: "list_all validEntry (entriesOf d k)" and fresh: "k \<notin> fst ` set acc"
    and np: "k \<noteq> ''__proto__''" by auto
  from sort_by_valid[OF v, of lc] obtain s where
    s: "sort_by (compareErrors lc) (entriesOf d k) = Inr s" "mset s = mset (entriesOf d k)"
    by blast
  have "\<exists>S. sortKeys lc d keys (acc @ [(k, s)]) = Inr ((acc @ [(k, s)]) @ S) \<and> map fst S = keys
     \<and> list_all (\<lambda>(k, s). mset s = mset (entriesOf d k)) S"
    using Cons.prems by (intro Cons.IH) auto
  then obtain S where
    S: "sortKeys lc d keys (acc @ [(k, s)]) = Inr ((acc @ [(k, s)]) @ S)" "map fst S = keys"
       "list_all (\<lambda>(k, s). mset s = mset (entriesOf d k)) S" by blast
  have "sortKeys lc d (k # keys) acc = Inr (acc @ ((k, s) # S))"
    using s(1) S(1) np fresh by (simp add: entriesOf_def update_fresh)
  with s(2) S(2,3) show ?case by (intro exI[of _ "(k, s) # S"]) simp
qed

lemma sortBaseline_ok:
  assumes dist: "distinct (map fst d)" and val: "list_all (\<lambda>(f, es). list_all validEntry es) d"
    and np: "''__proto__'' \<notin> fst ` set d"
  shows "\<exists>S. sortBaseline lc d = Inr S \<and> map fst S = sort (map fst d)
           \<and> (\<forall>f. map_option mset (map_of S f) = map_option mset (map_of d f))"
proof -
  have "list_all validEntry (entriesOf d k)" for k
  proof (cases "map_of d k")
    case None
    then show ?thesis by (simp add: entriesOf_def)
  next
    case (Some es)
    then have "(k, es) \<in> set d" by (rule map_of_SomeD)
    with val Some show ?thesis by (auto simp: entriesOf_def list_all_iff)
  qed
  then have v: "\<forall>k \<in> set (sort (map fst d)). list_all validEntry (entriesOf d k)" by blast
  from sortKeys_ok[of "sort (map fst d)" "[]" d lc] dist np v obtain S where
    S: "sortKeys lc d (sort (map fst d)) [] = Inr S" "map fst S = sort (map fst d)"
       "list_all (\<lambda>(k, s). mset s = mset (entriesOf d k)) S" by auto
  have dS: "distinct (map fst S)" using S(2) dist by simp
  have "map_option mset (map_of S f) = map_option mset (map_of d f)" for f
  proof (cases "map_of d f")
    case None
    then have "f \<notin> set (map fst S)" using S(2) by (simp add: map_of_eq_None_iff)
    then have "map_of S f = None" by (simp add: map_of_eq_None_iff)
    with None show ?thesis by simp
  next
    case (Some es)
    then have "f \<in> set (map fst S)" using S(2)
      by (metis map_of_eq_None_iff option.distinct(1) set_map set_sort)
    then obtain s where s: "(f, s) \<in> set S" by auto
    with dS have m: "map_of S f = Some s" by (simp add: map_of_is_SomeI)
    from s S(3) have "mset s = mset (entriesOf d f)" by (auto simp: list_all_iff)
    with m Some show ?thesis by (simp add: entriesOf_def)
  qed
  with S(1,2) show ?thesis by (auto simp: sortBaseline_def)
qed

lemma sameFindings_set:
  assumes "sameFindings S d" and "(f, s) \<in> set S" and "distinct (map fst S)"
  shows "\<exists>es. (f, es) \<in> set d \<and> mset s = mset es"
proof -
  from assms(2,3) have "map_of S f = Some s" by (simp add: map_of_is_SomeI)
  with assms(1)[unfolded sameFindings_def, THEN spec, of f]
  obtain es where "map_of d f = Some es" "mset s = mset es" by (cases "map_of d f") auto
  then show ?thesis by (meson map_of_SomeD)
qed

lemma sameFindings_keys:
  assumes "sameFindings S d"
  shows "fst ` set S = fst ` set d"
proof -
  have "(f \<in> fst ` set S) = (f \<in> fst ` set d)" for f
  proof -
    have "(map_of S f = None) = (map_of d f = None)"
      using assms[unfolded sameFindings_def, THEN spec, of f]
      by (cases "map_of S f"; cases "map_of d f") simp_all
    then have "(f \<notin> fst ` set S) = (f \<notin> fst ` set d)" by (simp only: map_of_eq_None_iff)
    then show ?thesis by blast
  qed
  then show ?thesis by blast
qed

lemma wellFormed_sameFindings:
  assumes "wellFormed d" and "sameFindings S d" and "distinct (map fst S)"
  shows "wellFormed S"
proof -
  have "s \<noteq> [] \<and> list_all validEntry s" if "(f, s) \<in> set S" for f s
  proof -
    from sameFindings_set[OF assms(2) that assms(3)] obtain es where
      es: "(f, es) \<in> set d" "mset s = mset es" by blast
    from es(2) have "set s = set es" by (metis set_mset_mset)
    moreover from es(2) have "s = [] \<longleftrightarrow> es = []" by (metis mset_zero_iff)
    ultimately show ?thesis using assms(1) es(1) by (auto simp: wellFormed_def list_all_iff)
  qed
  with assms(3) show ?thesis by (auto simp: wellFormed_def list_all_iff)
qed

lemma plainKeys_sameFindings: "plainKeys d \<Longrightarrow> sameFindings S d \<Longrightarrow> plainKeys S"
  using sameFindings_keys[of S d] by (force simp: plainKeys_def list_all_iff)

lemma sortBaseline_wellFormed:
  assumes wf: "wellFormed d" and np: "''__proto__'' \<notin> fst ` set d"
  shows "\<exists>S. sortBaseline lc d = Inr S \<and> wellFormed S \<and> sameFindings S d"
proof -
  from wf have dist: "distinct (map fst d)"
    and val: "list_all (\<lambda>(f, es). list_all validEntry es) d"
    by (auto simp: wellFormed_def list_all_iff)
  from sortBaseline_ok[OF dist val np, of lc] obtain S where
    S: "sortBaseline lc d = Inr S" "map fst S = sort (map fst d)"
       "\<forall>f. map_option mset (map_of S f) = map_option mset (map_of d f)" by blast
  from S(3) have same: "sameFindings S d" by (simp add: sameFindings_def)
  from S(2) dist have "distinct (map fst S)" by simp
  from wellFormed_sameFindings[OF wf same this] S(1) same show ?thesis by blast
qed

lemma single_roundtrip:
  assumes wf: "wellFormed D" and np: "''__proto__'' \<notin> fst ` set D"
  shows "\<exists>S fs'. sortBaseline lc D = Inr S \<and> saveSingleBaseline lc fs D = (None, fs')
           \<and> loadSingleBaseline fs' = S \<and> sameFindings S D"
proof -
  from sortBaseline_wellFormed[OF wf np, of lc] obtain S where
    S: "sortBaseline lc D = Inr S" "wellFormed S" "sameFindings S D" by blast
  have "loadSingleBaseline (fs\<lparr>fs_file := Some (stringify S)\<rparr>) = S"
    by (rule loadSingle_stringify[OF S(2)]) simp
  with S show ?thesis by (simp add: saveSingleBaseline_def)
qed

subsection \<open>The split round trip\<close>

text \<open>Grouping by rule keeps every finding, in a well-formed document per rule.\<close>

lemma entriesOf_update:
  "entriesOf (AList.update k es d) f = (if f = k then es else entriesOf d f)"
  by (simp add: entriesOf_def AList.update_conv')

lemma total_update_new:
  "map_of br k = None \<Longrightarrow> total (AList.update k rd' br) f = total br f + mset (entriesOf rd' f)"
  by (induction br) (auto simp: total_def)

lemma total_update_old:
  "map_of br k = Some rd \<Longrightarrow>
   total (AList.update k rd' br) f + mset (entriesOf rd f) = total br f + mset (entriesOf rd' f)"
  by (induction br) (auto simp: total_def)

lemma wellFormed_update:
  assumes "wellFormed rd" "es \<noteq> []" "list_all validEntry es"
  shows "wellFormed (AList.update k es rd)"
proof -
  have "distinct (map fst (AList.update k es rd))"
    using assms(1) by (simp add: wellFormed_def AList.distinct_update)
  moreover have "es' \<noteq> [] \<and> list_all validEntry es'"
    if "(f, es') \<in> set (AList.update k es rd)" for f es'
    using set_update_cases[OF that] assms by (auto simp: wellFormed_def list_all_iff)
  ultimately show ?thesis by (auto simp: wellFormed_def list_all_iff)
qed

lemma plainKeys_update:
  assumes "plainKeys rd" "k \<notin> set protoNames"
  shows "plainKeys (AList.update k es rd)"
proof -
  have "f \<notin> set protoNames" if "(f, es') \<in> set (AList.update k es rd)" for f es'
    using set_update_cases[OF that] assms by (auto simp: plainKeys_def list_all_iff)
  then show ?thesis by (auto simp: plainKeys_def list_all_iff)
qed

lemma wellFormed_lookup:
  "wellFormed rd \<Longrightarrow> list_all validEntry (entriesOf rd f)"
  by (auto simp: wellFormed_def entriesOf_def list_all_iff split: option.splits dest!: map_of_SomeD)

lemma addByRule_ok:
  assumes "byRuleOK br" "validEntry e"
    "safeFileName (ruleIdOf e) \<notin> set (''_loader'' # protoNames)" "fp \<notin> set protoNames"
  shows "\<exists>br'. addByRule fp e br = Inr br' \<and> byRuleOK br'
           \<and> (\<forall>f. total br' f = total br f + (if f = fp then {#e#} else {#}))"
proof -
  from validEntry_ruleId[OF assms(2)] obtain r where
    r: "map_of e ''ruleId'' = Some (JStr r)" "ruleIdOf e = r" by blast
  define k where "k = safeFileName r"
  define rd where "rd = (case map_of br k of None \<Rightarrow> [] | Some rd \<Rightarrow> rd)"
  define es where "es = (case map_of rd fp of None \<Rightarrow> [] | Some es \<Rightarrow> es)"
  define rd' where "rd' = AList.update fp (es @ [e]) rd"
  define br' where "br' = AList.update k rd' br"
  have kl: "k \<notin> set (''_loader'' # protoNames)" using assms(3) r by (simp add: k_def)
  then have kp: "k \<notin> set protoNames" by simp
  have res: "addByRule fp e br = Inr br'"
    using kp assms(4)
    by (simp add: addByRule_def r Let_def k_def[symmetric] rd_def es_def rd'_def br'_def)
  have wf_rd: "wellFormed rd \<and> plainKeys rd"
  proof (cases "map_of br k")
    case None
    then show ?thesis by (simp add: rd_def wellFormed_def plainKeys_def)
  next
    case (Some x)
    then have "(k, x) \<in> set br" by (rule map_of_SomeD)
    with assms(1) Some show ?thesis by (auto simp: rd_def byRuleOK_def)
  qed
  have es_eq: "es = entriesOf rd fp" by (simp add: es_def entriesOf_def)
  have "list_all validEntry (es @ [e])"
    using wellFormed_lookup[of rd fp] wf_rd assms(2) by (simp add: es_eq)
  then have wf_rd': "wellFormed rd'"
    unfolding rd'_def using wf_rd by (intro wellFormed_update) auto
  have pk_rd': "plainKeys rd'"
    unfolding rd'_def using wf_rd assms(4) by (intro plainKeys_update) auto
  have ok: "byRuleOK br'"
  proof -
    have "distinct (map fst br')" using assms(1)
      by (simp add: br'_def byRuleOK_def AList.distinct_update)
    moreover have "wellFormed x \<and> plainKeys x \<and> k' \<notin> set (''_loader'' # protoNames)"
      if "(k', x) \<in> set br'" for k' x
      using set_update_cases[OF that[unfolded br'_def]] assms(1) wf_rd' pk_rd' kl
      by (auto simp: byRuleOK_def)
    ultimately show ?thesis by (auto simp: byRuleOK_def)
  qed
  have ent: "entriesOf rd' f = entriesOf rd f @ (if f = fp then [e] else [])" for f
    by (simp add: rd'_def entriesOf_update es_eq)
  have tot: "total br' f = total br f + (if f = fp then {#e#} else {#})" for f
  proof (cases "map_of br k")
    case None
    then have "rd = []" by (simp add: rd_def)
    then have "entriesOf rd f = []" by (simp add: entriesOf_def)
    with total_update_new[OF None, of rd' f] ent[of f] show ?thesis
      by (simp add: br'_def)
  next
    case (Some x)
    then have "rd = x" by (simp add: rd_def)
    with total_update_old[OF Some, of rd' f] ent[of f] show ?thesis
      by (auto simp: br'_def)
  qed
  from res ok tot show ?thesis by blast
qed

lemma groupErrors_ok:
  assumes "byRuleOK br" "list_all validEntry es"
    "list_all (\<lambda>e. safeFileName (ruleIdOf e) \<notin> set (''_loader'' # protoNames)) es"
    "fp \<notin> set protoNames"
  shows "\<exists>br'. groupErrors fp es br = Inr br' \<and> byRuleOK br'
           \<and> (\<forall>f. total br' f = total br f + (if f = fp then mset es else {#}))"
  using assms(1,2,3)
proof (induction es arbitrary: br)
  case Nil
  then show ?case by simp
next
  case (Cons e es)
  from Cons.prems have "validEntry e"
    "safeFileName (ruleIdOf e) \<notin> set (''_loader'' # protoNames)" by auto
  from addByRule_ok[OF Cons.prems(1) this assms(4)] obtain br1 where
    1: "addByRule fp e br = Inr br1" "byRuleOK br1"
       "\<And>f. total br1 f = total br f + (if f = fp then {#e#} else {#})" by blast
  from Cons.IH[OF 1(2)] Cons.prems obtain br2 where
    2: "groupErrors fp es br1 = Inr br2" "byRuleOK br2"
       "\<And>f. total br2 f = total br1 f + (if f = fp then mset es else {#})" by auto
  have "groupErrors fp (e # es) br = Inr br2" using 1(1) 2(1) by simp
  moreover have "total br2 f = total br f + (if f = fp then mset (e # es) else {#})" for f
    by (simp add: 1(3) 2(3))
  ultimately show ?case using 2(2) by blast
qed

lemma groupByRule_ok:
  assumes "byRuleOK br" "distinct (map fst d)"
    "list_all (\<lambda>(f, es). list_all validEntry es) d" "plainKeys d" "plainRules d"
  shows "\<exists>br'. groupByRule d br = Inr br' \<and> byRuleOK br'
           \<and> (\<forall>f. total br' f = total br f + mset (entriesOf d f))"
  using assms
proof (induction d arbitrary: br)
  case Nil
  then show ?case by (simp add: entriesOf_def)
next
  case (Cons p d)
  obtain fp es where p: "p = (fp, es)" by (cases p)
  from Cons.prems p have "list_all validEntry es"
    "list_all (\<lambda>e. safeFileName (ruleIdOf e) \<notin> set (''_loader'' # protoNames)) es"
    "fp \<notin> set protoNames"
    by (auto simp: plainKeys_def plainRules_def)
  from groupErrors_ok[OF Cons.prems(1) this] obtain br1 where
    1: "groupErrors fp es br = Inr br1" "byRuleOK br1"
       "\<And>f. total br1 f = total br f + (if f = fp then mset es else {#})" by blast
  from Cons.IH[OF 1(2)] Cons.prems obtain br2 where
    2: "groupByRule d br1 = Inr br2" "byRuleOK br2"
       "\<And>f. total br2 f = total br1 f + mset (entriesOf d f)"
    by (auto simp: plainKeys_def plainRules_def)
  from Cons.prems p have none: "map_of d fp = None" by (auto simp: map_of_eq_None_iff)
  then have nil: "entriesOf d fp = []" by (simp add: entriesOf_def)
  from none have ent: "entriesOf (p # d) f = (if f = fp then es else entriesOf d f)" for f
    by (simp add: p entriesOf_def)
  have "groupByRule (p # d) br = Inr br2" using 1(1) 2(1) p by simp
  moreover have "total br2 f = total br f + mset (entriesOf (p # d) f)" for f
    by (simp add: 1(3) 2(3) ent nil)
  ultimately show ?case using 2(2) by blast
qed

text \<open>The directory after the save, and what the merge reads from it.\<close>

lemma writeRuleFiles_ok:
  "distinct (map fst br) \<Longrightarrow> (\<forall>k \<in> fst ` set br. k @ ''.json'' \<notin> fst ` set acc) \<Longrightarrow>
   (\<forall>(k, rd) \<in> set br. wellFormed rd \<and> plainKeys rd) \<Longrightarrow>
   \<exists>W. writeRuleFiles lc br acc = (None, acc @ W)
     \<and> list_all2 (\<lambda>(n, c) (k, rd). n = k @ ''.json''
          \<and> (\<exists>S. c = stringify S \<and> wellFormed S \<and> plainKeys S \<and> sameFindings S rd)) W br"
proof (induction br arbitrary: acc)
  case Nil
  then show ?case by simp
next
  case (Cons p br)
  obtain k rd where p: "p = (k, rd)" by (cases p)
  from Cons.prems p have wf: "wellFormed rd" and pk: "plainKeys rd"
    and fresh: "k @ ''.json'' \<notin> fst ` set acc" by auto
  from pk protoNames_proto have np: "''__proto__'' \<notin> fst ` set rd"
    by (auto simp: plainKeys_def list_all_iff)
  from sortBaseline_wellFormed[OF wf np, of lc] obtain S where
    S: "sortBaseline lc rd = Inr S" "wellFormed S" "sameFindings S rd" by blast
  have pS: "plainKeys S" by (rule plainKeys_sameFindings[OF pk S(3)])
  let ?acc = "acc @ [(k @ ''.json'', stringify S)]"
  have "\<forall>k' \<in> fst ` set br. k' @ ''.json'' \<notin> fst ` set ?acc"
    using Cons.prems p by auto
  with Cons.IH[of ?acc] Cons.prems p obtain W where
    W: "writeRuleFiles lc br ?acc = (None, ?acc @ W)"
       "list_all2 (\<lambda>(n, c) (k, rd). n = k @ ''.json''
          \<and> (\<exists>S. c = stringify S \<and> wellFormed S \<and> plainKeys S \<and> sameFindings S rd)) W br"
    by auto
  have "writeRuleFiles lc (p # br) acc = (None, acc @ ((k @ ''.json'', stringify S) # W))"
    using S(1) W(1) fresh by (simp add: p update_fresh)
  moreover have "list_all2 (\<lambda>(n, c) (k, rd). n = k @ ''.json''
          \<and> (\<exists>S. c = stringify S \<and> wellFormed S \<and> plainKeys S \<and> sameFindings S rd))
       ((k @ ''.json'', stringify S) # W) (p # br)"
    using W(2) S(2,3) pS p by auto
  ultimately show ?case by blast
qed

lemma written_names:
  "list_all2 (\<lambda>(n, c) (k, rd). n = k @ ''.json'' \<and> Q c rd) W br \<Longrightarrow>
   list_all (\<lambda>(n, c). \<exists>k \<in> fst ` set br. n = k @ ''.json'') W"
proof (induction W arbitrary: br)
  case Nil
  then show ?case by simp
next
  case (Cons w W)
  from Cons.prems obtain p br' where br: "br = p # br'" by (cases br) auto
  obtain n c where w: "w = (n, c)" by (cases w)
  obtain k rd where p: "p = (k, rd)" by (cases p)
  from Cons.prems br w p have n: "n = k @ ''.json''"
    and rest: "list_all2 (\<lambda>(n, c) (k, rd). n = k @ ''.json'' \<and> Q c rd) W br'" by auto
  from Cons.IH[OF rest] have "list_all (\<lambda>(n, c). \<exists>k \<in> fst ` set br. n = k @ ''.json'') W"
    by (auto simp: list_all_iff br)
  with n show ?case by (simp add: w br p)
qed

lemma noEmpty_update:
  assumes "noEmpty merged" "es \<noteq> []"
  shows "noEmpty (AList.update k es merged)"
proof -
  have "es' \<noteq> []" if "(f, es') \<in> set (AList.update k es merged)" for f es'
    using set_update_cases[OF that] assms by (auto simp: noEmpty_def list_all_iff)
  then show ?thesis by (auto simp: noEmpty_def list_all_iff)
qed

lemma mergeValidated_ok:
  "distinct (map fst S) \<Longrightarrow> plainKeys S \<Longrightarrow>
   \<exists>m. mergeValidated S merged = (None, m)
     \<and> (\<forall>f. mset (entriesOf m f) = mset (entriesOf merged f) + mset (entriesOf S f))
     \<and> (noEmpty merged \<and> noEmpty S \<longrightarrow> noEmpty m)"
proof (induction S arbitrary: merged)
  case Nil
  then show ?case by (simp add: entriesOf_def)
next
  case (Cons p S)
  obtain sf errs where p: "p = (sf, errs)" by (cases p)
  from Cons.prems p have plain: "sf \<notin> set protoNames" by (simp add: plainKeys_def)
  with protoNames_proto have np: "sf \<noteq> ''__proto__''" by auto
  let ?m = "AList.update sf (entriesOf merged sf @ errs) merged"
  from Cons.prems p have none: "map_of S sf = None" by (auto simp: map_of_eq_None_iff)
  then have nil: "entriesOf S sf = []" by (simp add: entriesOf_def)
  from none have ent: "entriesOf (p # S) f = (if f = sf then errs else entriesOf S f)" for f
    by (simp add: p entriesOf_def)
  from Cons.IH[of ?m] Cons.prems obtain m where
    m: "mergeValidated S ?m = (None, m)"
       "\<And>f. mset (entriesOf m f) = mset (entriesOf ?m f) + mset (entriesOf S f)"
       "noEmpty ?m \<and> noEmpty S \<longrightarrow> noEmpty m"
    by (auto simp: plainKeys_def)
  have r: "mergeValidated (p # S) merged = (None, m)"
    using m(1) plain np by (simp add: p entriesOf_def)
  have e: "mset (entriesOf m f) = mset (entriesOf merged f) + mset (entriesOf (p # S) f)" for f
    by (simp add: m(2) entriesOf_update ent nil)
  have n: "noEmpty m" if "noEmpty merged" "noEmpty (p # S)"
  proof -
    from that(2) p have "errs \<noteq> []" "noEmpty S" by (auto simp: noEmpty_def)
    with noEmpty_update[OF that(1), of "entriesOf merged sf @ errs" sf] m(3) show ?thesis by simp
  qed
  from r e n show ?case by blast
qed

lemma wellFormed_noEmpty: "wellFormed d \<Longrightarrow> noEmpty d"
  by (auto simp: wellFormed_def noEmpty_def list_all_iff)

lemma entriesOf_sameFindings:
  "sameFindings A B \<Longrightarrow> mset (entriesOf A f) = mset (entriesOf B f)"
  using sameFindings_def[of A B]
  by (cases "map_of A f"; cases "map_of B f") (auto simp: entriesOf_def dest!: spec[of _ f])

lemma mergeRuleFiles_written:
  "list_all2 (\<lambda>(n, c) (k, rd). n = k @ ''.json''
      \<and> (\<exists>S. c = stringify S \<and> wellFormed S \<and> plainKeys S \<and> sameFindings S rd)) W br \<Longrightarrow>
   (\<forall>f. mset (entriesOf (mergeRuleFiles W merged) f) = mset (entriesOf merged f) + total br f)
   \<and> (noEmpty merged \<longrightarrow> noEmpty (mergeRuleFiles W merged))"
proof (induction W arbitrary: br merged)
  case Nil
  then show ?case by (simp add: total_def)
next
  case (Cons w W)
  from Cons.prems obtain p br' where br: "br = p # br'" by (cases br) auto
  obtain n c where w: "w = (n, c)" by (cases w)
  obtain k rd where p: "p = (k, rd)" by (cases p)
  from Cons.prems br w p obtain S where
    S: "c = stringify S" "wellFormed S" "plainKeys S" "sameFindings S rd"
    and rest: "list_all2 (\<lambda>(n, c) (k, rd). n = k @ ''.json''
      \<and> (\<exists>S. c = stringify S \<and> wellFormed S \<and> plainKeys S \<and> sameFindings S rd)) W br'"
    by auto
  obtain j where j: "stringify S = Json j" by (simp add: stringify_def)
  have v: "validateBaselineData j = S" by (rule validate_stringify[OF S(2) j])
  from S(2) have dS: "distinct (map fst S)" by (simp add: wellFormed_def)
  from mergeValidated_ok[OF dS S(3), of merged] obtain m where
    m: "mergeValidated S merged = (None, m)"
       "\<And>f. mset (entriesOf m f) = mset (entriesOf merged f) + mset (entriesOf S f)"
       "noEmpty merged \<and> noEmpty S \<longrightarrow> noEmpty m" by blast
  have step: "mergeRuleFiles (w # W) merged = mergeRuleFiles W m"
    by (simp add: w S(1) j v m(1))
  have tot: "total br f = mset (entriesOf rd f) + total br' f" for f
    by (simp add: total_def br p)
  from Cons.IH[OF rest, of m]
  have ih: "\<And>f. mset (entriesOf (mergeRuleFiles W m) f) = mset (entriesOf m f) + total br' f"
    "noEmpty m \<longrightarrow> noEmpty (mergeRuleFiles W m)" by auto
  have "mset (entriesOf (mergeRuleFiles (w # W) merged) f)
          = mset (entriesOf merged f) + total br f" for f
    by (simp add: step ih(1) m(2) tot entriesOf_sameFindings[OF S(4)])
  moreover have "noEmpty merged \<longrightarrow> noEmpty (mergeRuleFiles (w # W) merged)"
    using ih(2) m(3) wellFormed_noEmpty[OF S(2)] by (simp add: step)
  ultimately show ?case by blast
qed

lemma sameFindings_entries:
  assumes "noEmpty A" "noEmpty B" "\<And>f. mset (entriesOf A f) = mset (entriesOf B f)"
  shows "sameFindings A B"
proof -
  have "map_option mset (map_of A f) = map_option mset (map_of B f)" for f
  proof -
    have a: "map_of A f = Some es \<Longrightarrow> es \<noteq> []" for es
      using assms(1) by (auto simp: noEmpty_def list_all_iff dest!: map_of_SomeD)
    have b: "map_of B f = Some es \<Longrightarrow> es \<noteq> []" for es
      using assms(2) by (auto simp: noEmpty_def list_all_iff dest!: map_of_SomeD)
    from assms(3)[of f] a b show ?thesis
      by (cases "map_of A f"; cases "map_of B f") (auto simp: entriesOf_def)
  qed
  then show ?thesis by (simp add: sameFindings_def)
qed

lemma split_save_load:
  assumes dist: "distinct (map fst D)" and val: "list_all (\<lambda>(f, es). list_all validEntry es) D"
    and pk: "plainKeys D" and pr: "plainRules D"
  shows "\<exists>fs'. saveSplitBaseline lc fs D = (None, fs') \<and> fs_file fs' = fs_file fs
           \<and> (\<forall>f. mset (entriesOf (loadSplitBaseline fs') f) = mset (entriesOf D f))
           \<and> noEmpty (loadSplitBaseline fs')"
proof -
  have ok0: "byRuleOK []" by (simp add: byRuleOK_def)
  from groupByRule_ok[OF ok0 dist val pk pr] obtain br where
    br: "groupByRule D [] = Inr br" "byRuleOK br"
        "\<And>f. total br f = mset (entriesOf D f)"
    by (auto simp: total_def)
  define dir0 where "dir0 = (case fs_dir fs of None \<Rightarrow> [] | Some dir \<Rightarrow> dir)"
  define dir1 where "dir1 = filter (\<lambda>(f, c). \<not> endsWith f ''.json'') dir0"
  have nojson: "\<forall>n \<in> fst ` set dir1. \<not> endsWith n ''.json''"
    by (auto simp: dir1_def)
  have dbr: "distinct (map fst br)" using br(2) by (simp add: byRuleOK_def)
  have fresh: "\<forall>k \<in> fst ` set br. k @ ''.json'' \<notin> fst ` set dir1"
    using nojson endsWith_json by blast
  have wfr: "\<forall>(k, rd) \<in> set br. wellFormed rd \<and> plainKeys rd"
    using br(2) by (auto simp: byRuleOK_def)
  from writeRuleFiles_ok[OF dbr fresh wfr, of lc] obtain W where
    W: "writeRuleFiles lc br dir1 = (None, dir1 @ W)"
       "list_all2 (\<lambda>(n, c) (k, rd). n = k @ ''.json''
          \<and> (\<exists>S. c = stringify S \<and> wellFormed S \<and> plainKeys S \<and> sameFindings S rd)) W br"
    by blast
  define dir3 where "dir3 = AList.update ''_loader.json''
     (loaderFile (map (\<lambda>(ruleId, ruleData). ruleId @ ''.json'') br)) (dir1 @ W)"
  have saved: "saveSplitBaseline lc fs D = (None, fs\<lparr>fs_dir := Some dir3\<rparr>)"
    by (simp add: saveSplitBaseline_def br(1) Let_def dir0_def[symmetric] dir1_def[symmetric]
        W(1) dir3_def)
  have names: "\<forall>(n, c) \<in> set W. \<exists>k \<in> fst ` set br. n = k @ ''.json''"
    using written_names[OF W(2)] by (auto simp: list_all_iff)
  have knl: "\<forall>k \<in> fst ` set br. k \<noteq> ''_loader''" using br(2) by (auto simp: byRuleOK_def)
  have lnot: "''_loader.json'' \<notin> fst ` set (dir1 @ W)"
  proof
    assume "''_loader.json'' \<in> fst ` set (dir1 @ W)"
    then consider "''_loader.json'' \<in> fst ` set dir1"
      | c where "(''_loader.json'', c) \<in> set W"
      by auto
    then show False
    proof cases
      case 1
      with nojson have "\<not> endsWith ''_loader.json'' ''.json''" by blast
      then show False by (simp add: endsWith_def)
    next
      case 2
      with names obtain k where "k \<in> fst ` set br" "''_loader.json'' = k @ ''.json''" by blast
      with knl show False by (metis json_name_loader)
    qed
  qed
  then have d3: "dir3 = dir1 @ W @ [(''_loader.json'',
       loaderFile (map (\<lambda>(ruleId, ruleData). ruleId @ ''.json'') br))]"
    by (simp add: dir3_def update_fresh)
  have f1: "filter (\<lambda>(f, c). endsWith f ''.json'' \<and> f \<noteq> ''_loader.json'') dir1 = []"
    using nojson by (auto simp: filter_empty_conv)
  have f2: "filter (\<lambda>(f, c). endsWith f ''.json'' \<and> f \<noteq> ''_loader.json'') W = W"
  proof -
    have "\<forall>p \<in> set W. (\<lambda>(f, c). endsWith f ''.json'' \<and> f \<noteq> ''_loader.json'') p"
    proof
      fix p assume pW: "p \<in> set W"
      obtain n c where p: "p = (n, c)" by (cases p)
      with pW names obtain k where k: "k \<in> fst ` set br" "n = k @ ''.json''" by blast
      with knl have "k \<noteq> ''_loader''" by blast
      with k(2) p show "(\<lambda>(f, c). endsWith f ''.json'' \<and> f \<noteq> ''_loader.json'') p"
        by (simp add: json_name_loader endsWith_json)
    qed
    then show ?thesis by (simp only: filter_id_conv)
  qed
  have loaded: "loadSplitBaseline (fs\<lparr>fs_dir := Some dir3\<rparr>) = mergeRuleFiles W []"
    by (simp add: loadSplitBaseline_def d3 f1 f2)
  have ne0: "noEmpty []" by (simp add: noEmpty_def)
  from mergeRuleFiles_written[OF W(2), of "[]"] ne0
  have m: "\<And>f. mset (entriesOf (mergeRuleFiles W []) f) = total br f"
    and ne: "noEmpty (mergeRuleFiles W [])"
    by (auto simp: entriesOf_def)
  from saved loaded m ne br(3) show ?thesis by simp
qed

lemma split_roundtrip:
  assumes wf: "wellFormed D" and pk: "plainKeys D" and pr: "plainRules D"
  shows "\<exists>fs'. saveSplitBaseline lc fs D = (None, fs')
           \<and> sameFindings (loadSplitBaseline fs') D"
proof -
  from wf have dist: "distinct (map fst D)"
    and val: "list_all (\<lambda>(f, es). list_all validEntry es) D"
    by (auto simp: wellFormed_def list_all_iff)
  from split_save_load[OF dist val pk pr, of lc fs] obtain fs' where
    s: "saveSplitBaseline lc fs D = (None, fs')"
       "\<And>f. mset (entriesOf (loadSplitBaseline fs') f) = mset (entriesOf D f)"
       "noEmpty (loadSplitBaseline fs')" by blast
  have "sameFindings (loadSplitBaseline fs') D"
    by (rule sameFindings_entries[OF s(3) wellFormed_noEmpty[OF wf]]) (rule s(2))
  with s(1) show ?thesis by blast
qed

subsection \<open>The round trip of save, reset and load\<close>

text \<open>
  C2 (as amended). For every non-empty document \<open>D\<close> in which every file has at least one
  finding and every finding is valid, and in which no name is one that a fresh object
  inherits where the engine looks it up (in single mode no file path is \<^verbatim>\<open>__proto__\<close>; in
  split mode no file path and no rule's file name is a property name of
  \<^verbatim>\<open>Object.prototype\<close>, and no rule's file name is \<^verbatim>\<open>_loader\<close>):
  \<^verbatim>\<open>save(D); reset(); load()\<close> returns true from the save and yields a document with the
  files of \<open>D\<close> and, for each file, the findings of \<open>D\<close> up to order, in both storage
  modes. In single mode the loaded document is the one that \<^verbatim>\<open>_sortBaseline\<close> returns for
  \<open>D\<close>.
\<close>

theorem save_reset_load_roundtrip:
  assumes "wellFormed D" and "D \<noteq> []"
    and "splitByRule b \<longrightarrow> plainKeys D \<and> plainRules D"
    and "\<not> splitByRule b \<longrightarrow> ''__proto__'' \<notin> fst ` set D"
  shows "\<exists>fs' L b'. save lc b fs D allowEmpty = (Inr True, fs')
           \<and> load fs' (reset b) = (Some L, b') \<and> data b' = Some L \<and> loaded b'
           \<and> sameFindings L D
           \<and> (\<not> splitByRule b \<longrightarrow> (\<exists>S. sortBaseline lc D = Inr S \<and> map_of L = map_of S))"
proof (cases "splitByRule b")
  case True
  with assms(3) split_roundtrip[OF assms(1), of lc fs] obtain fs' where
    "saveSplitBaseline lc fs D = (None, fs')" "sameFindings (loadSplitBaseline fs') D" by blast
  with True assms(2) show ?thesis
    by (simp add: save_def load_def reset_def Let_def)
next
  case False
  with assms(4) single_roundtrip[OF assms(1), of lc fs] obtain S fs' where
    "sortBaseline lc D = Inr S" "saveSingleBaseline lc fs D = (None, fs')"
    "loadSingleBaseline fs' = S" "sameFindings S D" by blast
  with False assms(2) show ?thesis
    by (simp add: save_def load_def reset_def Let_def)
qed

lemma wellFormed_exTwoFiles: "wellFormed exTwoFiles"
  using validEntry_ex by (simp add: wellFormed_def exTwoFiles_def)

lemma plain_exTwoFiles: "plainKeys exTwoFiles" "plainRules exTwoFiles"
  "''__proto__'' \<notin> fst ` set exTwoFiles"
  by (simp_all add: plainKeys_def plainRules_def exTwoFiles_def exA_def exB_def exN_def
      ruleIdOf_def safeFileName_def protoNames_def)

lemma save_exTwoFiles_single:
  "save exCompare (exEngine False) \<lparr>fs_file = None, fs_dir = None\<rparr> exTwoFiles False
     = (Inr True,
        \<lparr>fs_file = Some (stringify [(''src/file.ts'', [exA, exB]), (''src/other.ts'', [exN])]),
          fs_dir = None\<rparr>)"
proof -
  have k: "sort (map fst exTwoFiles) = [''src/file.ts'', ''src/other.ts'']"
    by (simp add: exTwoFiles_def)
  have s1: "sort_by (compareErrors exCompare) [exB, exA] = Inr [exA, exB]"
    by (simp add: sort_by_def compareErrors_def strictNotEqual_def exA_def exB_def)
  have s2: "sort_by (compareErrors exCompare) [exN] = Inr [exN]"
    by (simp add: sort_by_def)
  have "sortBaseline exCompare exTwoFiles
          = Inr [(''src/file.ts'', [exA, exB]), (''src/other.ts'', [exN])]"
    unfolding sortBaseline_def k by (simp add: exTwoFiles_def s1 s2)
  then show ?thesis
    by (simp add: save_def exEngine_def constructor_def saveSingleBaseline_def exTwoFiles_def)
qed

lemma save_exTwoFiles_split:
  "save exCompare (exEngine True) \<lparr>fs_file = None, fs_dir = None\<rparr> exTwoFiles False
     = (Inr True,
        \<lparr>fs_file = None,
          fs_dir = Some [(''no-console.json'', stringify [(''src/file.ts'', [exB])]),
                         (''no-unused-vars.json'', stringify [(''src/file.ts'', [exA])]),
                         (''@typescript-eslint-no-unused-vars.json'',
                            stringify [(''src/other.ts'', [exN])]),
                         (''_loader.json'',
                            loaderFile [''no-console.json'', ''no-unused-vars.json'',
                              ''@typescript-eslint-no-unused-vars.json''])]\<rparr>)"
  by (simp add: save_def exEngine_def constructor_def saveSplitBaseline_def exTwoFiles_def
      addByRule_def safeFileName_def protoNames_def sortBaseline_def sort_by_def Let_def
      exA_def exB_def exN_def endsWith_def)

lemma validate_ex:
  "validateBaselineData (JObj [(f, JArr [JObj exA])]) = [(f, [exA])]"
  "validateBaselineData (JObj [(f, JArr [JObj exB])]) = [(f, [exB])]"
  "validateBaselineData (JObj [(f, JArr [JObj exN])]) = [(f, [exN])]"
  "validateBaselineData (JObj [(f, JArr [JObj exA, JObj exB]), (g, JArr [JObj exN])])
     = AList.update g [exN] [(f, [exA, exB])]"
  using validEntry_ex
  by (simp_all add: validateBaselineData_def validateFile_def validEntry_def)

theorem save_reset_load_roundtrip_witness:
  "wellFormed exTwoFiles \<and> exTwoFiles \<noteq> [] \<and> splitByRule (exEngine True)
   \<and> \<not> splitByRule (exEngine False)
   \<and> plainKeys exTwoFiles \<and> plainRules exTwoFiles \<and> ''__proto__'' \<notin> fst ` set exTwoFiles
   \<and> (\<exists>fs' L b'. save exCompare (exEngine True) \<lparr>fs_file = None, fs_dir = None\<rparr> exTwoFiles False
                    = (Inr True, fs')
         \<and> load fs' (reset (exEngine True)) = (Some L, b') \<and> sameFindings L exTwoFiles)
   \<and> (\<exists>fs' L b'. save exCompare (exEngine False) \<lparr>fs_file = None, fs_dir = None\<rparr> exTwoFiles False
                    = (Inr True, fs')
         \<and> load fs' (reset (exEngine False)) = (Some L, b') \<and> sameFindings L exTwoFiles)
   \<and> fst (load (snd (save exCompare (exEngine True) \<lparr>fs_file = None, fs_dir = None\<rparr>
                         exTwoFiles False))
              (reset (exEngine True)))
       = Some exTwoFiles
   \<and> fst (load (snd (save exCompare (exEngine False) \<lparr>fs_file = None, fs_dir = None\<rparr>
                         exTwoFiles False))
              (reset (exEngine False)))
       = Some [(''src/file.ts'', [exA, exB]), (''src/other.ts'', [exN])]"
proof -
  have h2: "exTwoFiles \<noteq> []" by (simp add: exTwoFiles_def)
  have s: "splitByRule (exEngine True)" "\<not> splitByRule (exEngine False)"
    by (simp_all add: exEngine_def constructor_def)
  from save_reset_load_roundtrip[OF wellFormed_exTwoFiles h2, of "exEngine True" exCompare
      "\<lparr>fs_file = None, fs_dir = None\<rparr>" False] plain_exTwoFiles s(1)
  have a: "\<exists>fs' L b'. save exCompare (exEngine True) \<lparr>fs_file = None, fs_dir = None\<rparr> exTwoFiles False
                    = (Inr True, fs')
         \<and> load fs' (reset (exEngine True)) = (Some L, b') \<and> sameFindings L exTwoFiles"
    by blast
  from save_reset_load_roundtrip[OF wellFormed_exTwoFiles h2, of "exEngine False" exCompare
      "\<lparr>fs_file = None, fs_dir = None\<rparr>" False] plain_exTwoFiles s(2)
  have b: "\<exists>fs' L b'. save exCompare (exEngine False) \<lparr>fs_file = None, fs_dir = None\<rparr> exTwoFiles False
                    = (Inr True, fs')
         \<and> load fs' (reset (exEngine False)) = (Some L, b') \<and> sameFindings L exTwoFiles"
    by blast
  have c: "fst (load (snd (save exCompare (exEngine True) \<lparr>fs_file = None, fs_dir = None\<rparr>
                         exTwoFiles False))
              (reset (exEngine True)))
       = Some exTwoFiles"
    unfolding save_exTwoFiles_split
    by (simp add: load_def reset_def exEngine_def constructor_def Let_def loadSplitBaseline_def
        endsWith_def stringify_def validate_ex protoNames_def exTwoFiles_def)
  have d: "fst (load (snd (save exCompare (exEngine False) \<lparr>fs_file = None, fs_dir = None\<rparr>
                         exTwoFiles False))
              (reset (exEngine False)))
       = Some [(''src/file.ts'', [exA, exB]), (''src/other.ts'', [exN])]"
    unfolding save_exTwoFiles_single
    by (simp add: load_def reset_def exEngine_def constructor_def Let_def loadSingleBaseline_def
        stringify_def validate_ex)
  from wellFormed_exTwoFiles h2 s plain_exTwoFiles a b c d show ?thesis by blast
qed

text \<open>
  C2 (as stated) fails: a file without findings makes the document non-empty for
  \<^verbatim>\<open>save\<close>, and is dropped by the validation on load.
\<close>

theorem roundtrip_drops_file_without_findings:
  "fst (save exCompare (exEngine False) \<lparr>fs_file = None, fs_dir = None\<rparr> [(''f'', [])] False)
     = Inr True
   \<and> fst (load (snd (save exCompare (exEngine False) \<lparr>fs_file = None, fs_dir = None\<rparr>
                       [(''f'', [])] False))
            (reset (exEngine False))) = Some []
   \<and> \<not> sameFindings [] [(''f'', [])]"
proof -
  have "\<not> sameFindings [] [(''f'', [])]"
  proof
    assume a: "sameFindings [] [(''f'', [])]"
    from a[unfolded sameFindings_def, THEN spec, of "''f''"] show False by simp
  qed
  then show ?thesis
    by (simp add: save_def saveSingleBaseline_def exEngine_def constructor_def load_def reset_def
        loadSingleBaseline_def sortBaseline_def sort_by_def stringify_def
        validateBaselineData_def validateFile_def Let_def)
qed

text \<open>
  The cases that the amended claim leaves out. In split mode the document of a rule named
  \<^verbatim>\<open>_loader\<close> is written to \<^verbatim>\<open>_loader.json\<close>, overwritten by the manifest and skipped by
  the load; the findings of a rule named \<^verbatim>\<open>constructor\<close> reach no rule document, so that
  the save returns true and the load returns the empty document. In single mode the
  findings of a file named \<^verbatim>\<open>__proto__\<close> are not written.
\<close>

lemma split_save_overwrites_loader_rule:
  "loadSplitBaseline (snd (saveSplitBaseline exCompare \<lparr>fs_file = None, fs_dir = None\<rparr>
     [(''f'', [[(''ruleId'', JStr ''_loader''), (''line'', JNum 1), (''message'', JStr ''m'')]])]))
   = []"
  by (simp add: saveSplitBaseline_def addByRule_def safeFileName_def protoNames_def
      sortBaseline_def sort_by_def loadSplitBaseline_def endsWith_def Let_def)

lemma split_save_drops_inherited_rule:
  "save exCompare (exEngine True) \<lparr>fs_file = None, fs_dir = None\<rparr> exProtoRule False
     = (Inr True, \<lparr>fs_file = None, fs_dir = Some [(''_loader.json'', loaderFile [])]\<rparr>)
   \<and> loadSplitBaseline \<lparr>fs_file = None, fs_dir = Some [(''_loader.json'', loaderFile [])]\<rparr> = []"
  by (simp add: save_def exEngine_def constructor_def exProtoRule_def saveSplitBaseline_def
      addByRule_def safeFileName_def protoNames_def loadSplitBaseline_def endsWith_def Let_def)

lemma single_save_drops_proto_file:
  "save exCompare (exEngine False) \<lparr>fs_file = None, fs_dir = None\<rparr> [(''__proto__'', [exB])] False
     = (Inr True, \<lparr>fs_file = Some (stringify []), fs_dir = None\<rparr>)"
  by (simp add: save_def exEngine_def constructor_def saveSingleBaseline_def sortBaseline_def
      sort_by_def Let_def)

subsection \<open>The empty-baseline guard\<close>

text \<open>
  The guard of \<^verbatim>\<open>save\<close>, for every document: it returns false exactly when the document
  has no file keys and \<^verbatim>\<open>allowEmpty\<close> is not set, and then nothing is thrown and the disk
  is unchanged.
\<close>

lemma save_false_iff_empty:
  "(fst (save lc b fs D allowEmpty) = Inr False \<longleftrightarrow> D = [] \<and> \<not> allowEmpty)
   \<and> (D = [] \<and> \<not> allowEmpty \<longrightarrow> save lc b fs D allowEmpty = (Inr False, fs))"
  by (auto simp: save_def Let_def split: prod.splits option.splits)

text \<open>
  What the load keeps of a written document whose findings are valid: the files that have
  findings.
\<close>

lemma validate_fold_filter:
  "distinct (map fst d) \<Longrightarrow> set (map fst d) \<inter> fst ` set acc = {} \<Longrightarrow>
   list_all (\<lambda>(file, es). list_all validEntry es) d \<Longrightarrow>
   fold validateFile (map (\<lambda>(file, errors). (file, JArr (map JObj errors))) d) acc
     = acc @ filter (\<lambda>(file, es). es \<noteq> []) d"
proof (induction d arbitrary: acc)
  case Nil
  then show ?case by simp
next
  case (Cons p d)
  obtain k es where p: "p = (k, es)" by (cases p)
  from Cons.prems p have val: "list_all validEntry es" and fresh: "k \<notin> fst ` set acc" by auto
  from val have f: "filter validError (map JObj es) = map JObj es"
    by (induction es) (auto simp: validEntry_def)
  have m: "map (asEntry \<circ> JObj) es = es" by (induction es) auto
  show ?case
  proof (cases "es = []")
    case True
    then have step: "validateFile (k, JArr (map JObj es)) acc = acc"
      by (simp add: validateFile_def)
    have "fold validateFile (map (\<lambda>(file, errors). (file, JArr (map JObj errors))) d) acc
            = acc @ filter (\<lambda>(file, es). es \<noteq> []) d"
      using Cons.prems p by (intro Cons.IH) auto
    with step p True show ?thesis by simp
  next
    case False
    then have step: "validateFile (k, JArr (map JObj es)) acc = acc @ [(k, es)]"
      using fresh by (simp add: validateFile_def f m update_fresh)
    have "fold validateFile (map (\<lambda>(file, errors). (file, JArr (map JObj errors))) d)
            (acc @ [(k, es)]) = (acc @ [(k, es)]) @ filter (\<lambda>(file, es). es \<noteq> []) d"
      using Cons.prems p by (intro Cons.IH) auto
    with step p False show ?thesis by simp
  qed
qed

lemma entriesOf_filter_nonempty:
  "distinct (map fst d) \<Longrightarrow> entriesOf (filter (\<lambda>(file, es). es \<noteq> []) d) f = entriesOf d f"
proof (induction d)
  case Nil
  then show ?case by simp
next
  case (Cons p d)
  obtain k es where p: "p = (k, es)" by (cases p)
  from Cons.prems p have "k \<notin> fst ` set (filter (\<lambda>(file, es). es \<noteq> []) d)" by auto
  then have none: "map_of (filter (\<lambda>(file, es). es \<noteq> []) d) k = None"
    using map_of_eq_None_iff[of "filter (\<lambda>(file, es). es \<noteq> []) d" k] by blast
  from Cons.IH Cons.prems have ih: "entriesOf (filter (\<lambda>(file, es). es \<noteq> []) d) f = entriesOf d f"
    by simp
  show ?case
  proof (cases "f = k")
    case True
    with none show ?thesis by (simp add: p entriesOf_def)
  next
    case False
    with ih show ?thesis by (simp add: p entriesOf_def)
  qed
qed

lemma single_save_load:
  assumes dist: "distinct (map fst D)" and val: "list_all (\<lambda>(f, es). list_all validEntry es) D"
    and np: "''__proto__'' \<notin> fst ` set D"
  shows "\<exists>fs'. saveSingleBaseline lc fs D = (None, fs') \<and> fs_dir fs' = fs_dir fs
           \<and> (\<forall>f. mset (entriesOf (loadSingleBaseline fs') f) = mset (entriesOf D f))
           \<and> noEmpty (loadSingleBaseline fs')"
proof -
  from sortBaseline_ok[OF dist val np, of lc] obtain S where
    S: "sortBaseline lc D = Inr S" "map fst S = sort (map fst D)"
       "\<forall>f. map_option mset (map_of S f) = map_option mset (map_of D f)" by blast
  from S(3) have same: "sameFindings S D" by (simp add: sameFindings_def)
  from S(2) dist have dS: "distinct (map fst S)" by simp
  have vS: "list_all (\<lambda>(f, es). list_all validEntry es) S"
  proof -
    have "list_all validEntry s" if "(f, s) \<in> set S" for f s
    proof -
      from sameFindings_set[OF same that dS] obtain es where
        es: "(f, es) \<in> set D" "mset s = mset es" by blast
      from es(2) have "set s = set es" by (metis set_mset_mset)
      with val es(1) show ?thesis by (auto simp: list_all_iff)
    qed
    then show ?thesis by (auto simp: list_all_iff)
  qed
  let ?fs = "fs\<lparr>fs_file := Some (stringify S)\<rparr>"
  have l: "loadSingleBaseline ?fs = filter (\<lambda>(file, es). es \<noteq> []) S"
    using validate_fold_filter[OF dS _ vS, of "[]"]
    by (simp add: loadSingleBaseline_def stringify_def validateBaselineData_def)
  have "mset (entriesOf (loadSingleBaseline ?fs) f) = mset (entriesOf D f)" for f
    by (simp add: l entriesOf_filter_nonempty[OF dS] entriesOf_sameFindings[OF same])
  moreover have "noEmpty (loadSingleBaseline ?fs)"
    by (auto simp: l noEmpty_def list_all_iff)
  ultimately show ?thesis using S(1) by (simp add: saveSingleBaseline_def)
qed

lemma noEmpty_no_entries: "noEmpty L \<Longrightarrow> \<forall>f. entriesOf L f = [] \<Longrightarrow> L = []"
proof (cases L)
  case Nil
  then show ?thesis by simp
next
  case (Cons p L')
  obtain k es where p: "p = (k, es)" by (cases p)
  assume "noEmpty L" "\<forall>f. entriesOf L f = []"
  with Cons p have "es \<noteq> []" "entriesOf L k = []" by (auto simp: noEmpty_def)
  with Cons p show ?thesis by (simp add: entriesOf_def)
qed

text \<open>
  Where no name is inherited and, in split mode, no rule is named \<^verbatim>\<open>_loader\<close>, a
  document of valid findings is saved without a throw and persisted: \<^verbatim>\<open>save\<close> returns
  true unless the guard applies, and a load on a reset engine reads back, for each file,
  the findings of the document up to order; the empty document saved with
  \<^verbatim>\<open>allowEmpty\<close> is read back as the empty document.
\<close>

lemma save_persists:
  assumes "distinct (map fst D)" and "list_all (\<lambda>(f, es). list_all validEntry es) D"
    and "splitByRule b \<longrightarrow> plainKeys D \<and> plainRules D"
    and "\<not> splitByRule b \<longrightarrow> ''__proto__'' \<notin> fst ` set D"
    and "\<not> (D = [] \<and> \<not> allowEmpty)"
  shows "\<exists>fs' L. save lc b fs D allowEmpty = (Inr True, fs')
           \<and> fst (load fs' (reset b)) = Some L
           \<and> (\<forall>f. mset (entriesOf L f) = mset (entriesOf D f))
           \<and> (D = [] \<longrightarrow> L = [])"
proof (cases "splitByRule b")
  case True
  with assms(3) split_save_load[OF assms(1,2), of lc fs] obtain fs' where
    s: "saveSplitBaseline lc fs D = (None, fs')"
       "\<forall>f. mset (entriesOf (loadSplitBaseline fs') f) = mset (entriesOf D f)"
       "noEmpty (loadSplitBaseline fs')" by blast
  have "D = [] \<Longrightarrow> loadSplitBaseline fs' = []"
    using noEmpty_no_entries[OF s(3)] s(2) by (simp add: entriesOf_def)
  with True s assms(5) show ?thesis
    by (auto simp: save_def load_def reset_def Let_def)
next
  case False
  with assms(4) single_save_load[OF assms(1,2), of lc fs] obtain fs' where
    s: "saveSingleBaseline lc fs D = (None, fs')"
       "\<forall>f. mset (entriesOf (loadSingleBaseline fs') f) = mset (entriesOf D f)"
       "noEmpty (loadSingleBaseline fs')" by blast
  have "D = [] \<Longrightarrow> loadSingleBaseline fs' = []"
    using noEmpty_no_entries[OF s(3)] s(2) by (simp add: entriesOf_def)
  with False s assms(5) show ?thesis
    by (auto simp: save_def load_def reset_def Let_def)
qed

text \<open>
  C3. \<^verbatim>\<open>save\<close> does not return true on every document that is not empty. The document
  \<^verbatim>\<open>{"constructor": [e]}\<close>, with \<open>e\<close> a finding of the rule \<^verbatim>\<open>no-console\<close>, is well
  formed and not empty, and \<^verbatim>\<open>save\<close> in split mode throws a \<^verbatim>\<open>TypeError\<close> on it, with
  and without \<^verbatim>\<open>allowEmpty\<close>: the rule document of \<^verbatim>\<open>no-console\<close> is a fresh object,
  \<^verbatim>\<open>byRule[ruleId][filePath]\<close> is the inherited \<^verbatim>\<open>Object\<close>, and \<^verbatim>\<open>push\<close> is not a
  function of it. The directory has been created and nothing is written to it.
\<close>

theorem save_throws_on_inherited_file_key:
  "wellFormed exProtoFile \<and> exProtoFile \<noteq> []
   \<and> save exCompare (exEngine True) \<lparr>fs_file = None, fs_dir = None\<rparr> exProtoFile False
       = (Inl TypeError, \<lparr>fs_file = None, fs_dir = Some []\<rparr>)
   \<and> save exCompare (exEngine True) \<lparr>fs_file = None, fs_dir = None\<rparr> exProtoFile True
       = (Inl TypeError, \<lparr>fs_file = None, fs_dir = Some []\<rparr>)"
  using validEntry_ex(2)
  by (simp add: wellFormed_def exProtoFile_def save_def exEngine_def constructor_def
      saveSplitBaseline_def addByRule_def exB_def protoNames_def Let_def)

end
